theory Spec2Isabelle
  imports
    Complex_Main
    "HOL-Library.Sublist"
    "HOL-Library.Multiset"
    "HOL-Library.Char_ord"
    "HOL-Library.List_Lexorder"
    "HOL-Library.Product_Lexorder"
begin

section \<open>Python string primitives used by \<open>analyze_evals.py\<close>\<close>

text \<open>
  Python strings are modelled as \<open>string\<close> (lists of \<open>char\<close>), a character being its
  code point below 256: \<open>len\<close> is \<open>length\<close> and \<open>needle in hay\<close> is contiguous
  containment. The whitespace removed by \<open>str.strip\<close> and matched by the
  regular-expression class \<open>\s\<close> is, in this range, what CPython takes for whitespace in
  a \<open>str\<close>: the codes 9 to 13, 28 to 31, 32, 0x85 (next line) and 0xA0 (no-break
  space). \<open>str.lower\<close> maps the letters A to Z to a to z; the accented capitals that
  Python lowers too are left alone here, which no test of the program can tell, since
  \<open>lower\<close> is only used before looking for a needle of ASCII letters and no other
  character lower-cases to an ASCII letter.
\<close>

fun py_in :: "string \<Rightarrow> string \<Rightarrow> bool" where
  "py_in needle [] = (needle = [])"
| "py_in needle (c # cs) = (prefix needle (c # cs) \<or> py_in needle cs)"

definition lower_char :: "char \<Rightarrow> char" where
  "lower_char c =
     (case map_of (zip ''ABCDEFGHIJKLMNOPQRSTUVWXYZ'' ''abcdefghijklmnopqrstuvwxyz'') c of
        Some d \<Rightarrow> d
      | None \<Rightarrow> c)"

definition py_lower :: "string \<Rightarrow> string" where
  "py_lower s = map lower_char s"

definition is_space :: "char \<Rightarrow> bool" where
  "is_space c = (c \<in> set [CHR 0x09, CHR 0x0A, CHR 0x0B, CHR 0x0C, CHR 0x0D,
                           CHR 0x1C, CHR 0x1D, CHR 0x1E, CHR 0x1F, CHR 0x20,
                           CHR 0x85, CHR 0xA0])"

definition is_digit :: "char \<Rightarrow> bool" where
  "is_digit c = (c \<in> set ''0123456789'')"

definition py_strip :: "string \<Rightarrow> string" where
  "py_strip s = rev (dropWhile is_space (rev (dropWhile is_space s)))"

section \<open>Feedback filter\<close>

definition positive_keywords :: "string list" where
  "positive_keywords =
     [''great'', ''excellent'', ''helpful'', ''enjoyed'', ''liked'', ''appreciated'',
      ''well'', ''organized'', ''clear'', ''kind'', ''willing'', ''best'', ''really'',
      ''engaging'', ''informative'', ''thorough'', ''fair'', ''supportive'']"

text \<open>
  \<open>positive_count = sum(1 for kw in positive_keywords if kw in lower_comment)\<close>:
  one is added for each keyword of the list that passes the test.
\<close>

definition positive_count :: "string \<Rightarrow> int" where
  "positive_count lower_comment =
     sum_list (map (\<lambda>kw. 1) (filter (\<lambda>kw. py_in kw lower_comment) positive_keywords))"

text \<open>
  The loop of \<open>filter_good_feedback\<close>, with the list \<open>good_comments\<close> it appends to as
  an accumulator.
\<close>

fun filter_loop :: "int \<Rightarrow> string list \<Rightarrow> string list \<Rightarrow> string list" where
  "filter_loop min_length [] good_comments = good_comments"
| "filter_loop min_length (comment # comments) good_comments =
     (if min_length \<le> int (length comment) then
        (let lower_comment = py_lower comment in
         if 2 \<le> positive_count lower_comment
         then filter_loop min_length comments (good_comments @ [comment])
         else filter_loop min_length comments good_comments)
      else filter_loop min_length comments good_comments)"

definition filter_good_feedback :: "string list \<Rightarrow> int \<Rightarrow> string list" where
  "filter_good_feedback comments min_length = filter_loop min_length comments []"

text \<open>The call with the default argument \<open>min_length=50\<close>.\<close>

definition filter_good_feedback_default :: "string list \<Rightarrow> string list" where
  "filter_good_feedback_default comments = filter_good_feedback comments 50"

text \<open>
  What the contract calls a case-insensitive substring hit: some contiguous piece of the
  comment equals the keyword up to letter case.
\<close>

definition occurs_ci :: "string \<Rightarrow> string \<Rightarrow> bool" where
  "occurs_ci kw comment =
     (\<exists>p u r. comment = p @ u @ r \<and> py_lower u = py_lower kw)"

text \<open>The number of distinct vocabulary keywords with a hit in the comment.\<close>

definition distinct_hits :: "string \<Rightarrow> nat" where
  "distinct_hits comment = card {kw \<in> set positive_keywords. occurs_ci kw comment}"

section \<open>Filename metadata parser\<close>

text \<open>
  \<open>re.search\<close> is a backtracking matcher: it tries the start positions from left to
  right and, at one position, the alternatives of every pattern item in a fixed order of
  preference (the branches of \<open>|\<close> as written, the longest repetition first for the
  greedy \<open>+\<close>, the shortest first for the lazy \<open>*?\<close>), and it reports the first way that
  succeeds. A pattern item is modelled as a function from the text still to be matched to
  the list of its possible matches, most preferred first, each match a pair of the piece
  consumed and the text left over.
\<close>

type_synonym re_item = "string \<Rightarrow> (string \<times> string) list"

text \<open>A repetition of a character class, longest piece first.\<close>

fun splits_greedy :: "(char \<Rightarrow> bool) \<Rightarrow> re_item" where
  "splits_greedy P [] = [([], [])]"
| "splits_greedy P (c # cs) =
     (if P c then map (\<lambda>(w, r). (c # w, r)) (splits_greedy P cs) else []) @ [([], c # cs)]"

text \<open>The same repetition, shortest piece first.\<close>

fun splits_lazy :: "(char \<Rightarrow> bool) \<Rightarrow> re_item" where
  "splits_lazy P [] = [([], [])]"
| "splits_lazy P (c # cs) =
     ([], c # cs) # (if P c then map (\<lambda>(w, r). (c # w, r)) (splits_lazy P cs) else [])"

definition re_plus :: "(char \<Rightarrow> bool) \<Rightarrow> re_item" where
  "re_plus P s = filter (\<lambda>(w, r). w \<noteq> []) (splits_greedy P s)"

definition re_star_lazy :: "(char \<Rightarrow> bool) \<Rightarrow> re_item" where
  "re_star_lazy P s = splits_lazy P s"

definition re_count :: "nat \<Rightarrow> (char \<Rightarrow> bool) \<Rightarrow> re_item" where
  "re_count n P s =
     (if n \<le> length s \<and> list_all P (take n s) then [(take n s, drop n s)] else [])"

definition re_lit :: "string \<Rightarrow> re_item" where
  "re_lit w s = (if prefix w s then [(w, drop (length w) s)] else [])"

definition re_alt :: "string list \<Rightarrow> re_item" where
  "re_alt ws s = concat (map (\<lambda>w. re_lit w s) ws)"

text \<open>The class \<open>.\<close> is every character but the line feed.\<close>

definition is_dot :: "char \<Rightarrow> bool" where
  "is_dot c = (c \<noteq> CHR 0x0A)"

text \<open>
  All matches of \<open>(Spring|Fall|Summer)\s+(\d{4}).*?(CMSI\s+\d+)\s+(\d+)\<close> that start at
  the head of the text, in the order of preference, each given by its four groups.
\<close>

definition match_here :: "string \<Rightarrow> (string \<times> string \<times> string \<times> string) list" where
  "match_here s =
     [(g1, g2, lit @ ws2 @ num, g4).
        (g1, r1) \<leftarrow> re_alt [''Spring'', ''Fall'', ''Summer''] s,
        (ws1, r2) \<leftarrow> re_plus is_space r1,
        (g2, r3) \<leftarrow> re_count 4 is_digit r2,
        (mid, r4) \<leftarrow> re_star_lazy is_dot r3,
        (lit, r5) \<leftarrow> re_lit ''CMSI'' r4,
        (ws2, r6) \<leftarrow> re_plus is_space r5,
        (num, r7) \<leftarrow> re_plus is_digit r6,
        (ws3, r8) \<leftarrow> re_plus is_space r7,
        (g4, r9) \<leftarrow> re_plus is_digit r8]"

fun re_search :: "string \<Rightarrow> (string \<times> string \<times> string \<times> string) option" where
  "re_search [] = (case match_here [] of m # _ \<Rightarrow> Some m | [] \<Rightarrow> None)"
| "re_search (c # cs) =
     (case match_here (c # cs) of m # _ \<Rightarrow> Some m | [] \<Rightarrow> re_search cs)"

text \<open>\<open>str.replace\<close> for a one-character pattern and a one-character replacement.\<close>

definition py_replace_char :: "char \<Rightarrow> char \<Rightarrow> string \<Rightarrow> string" where
  "py_replace_char old new s = map (\<lambda>c. if c = old then new else c) s"

definition parse_course_info :: "string \<Rightarrow> string \<times> string \<times> string" where
  "parse_course_info filename =
     (case re_search filename of
        Some (semester, year, g3, section) \<Rightarrow>
          (let course = py_replace_char CHR '' '' CHR '' '' g3
           in (semester @ '' '' @ year, course, section))
      | None \<Rightarrow> (''Unknown'', ''Unknown'', ''00''))"

text \<open>
  The shape the contract describes: somewhere in the text a semester name, whitespace, a
  four-digit year, any text without a line break, the course code (department prefix,
  whitespace, number), whitespace and the section digits.
\<close>

definition has_course_pattern :: "string \<Rightarrow> string \<Rightarrow> string \<Rightarrow> string \<Rightarrow> string \<Rightarrow> bool" where
  "has_course_pattern s sem year course sec =
     (\<exists>pre ws1 mid ws2 num ws3 rest.
        s = pre @ sem @ ws1 @ year @ mid @ ''CMSI'' @ ws2 @ num @ ws3 @ sec @ rest
        \<and> sem \<in> set [''Spring'', ''Fall'', ''Summer'']
        \<and> ws1 \<noteq> [] \<and> list_all is_space ws1
        \<and> length year = 4 \<and> list_all is_digit year
        \<and> list_all is_dot mid
        \<and> course = ''CMSI'' @ ws2 @ num
        \<and> ws2 \<noteq> [] \<and> list_all is_space ws2
        \<and> num \<noteq> [] \<and> list_all is_digit num
        \<and> ws3 \<noteq> [] \<and> list_all is_space ws3
        \<and> sec \<noteq> [] \<and> list_all is_digit sec)"

definition contains_course_pattern :: "string \<Rightarrow> bool" where
  "contains_course_pattern s = (\<exists>sem year course sec. has_course_pattern s sem year course sec)"

text \<open>
  A file name of the plain shape
  \<open>pre sem year mid CMSI num sec rest\<close> with single blanks around the year and the
  course number: no semester name can start inside \<open>pre\<close> (it has neither \<open>S\<close> nor
  \<open>F\<close>), the text \<open>mid\<close> has no line break and no \<open>CMSI\<close> starts in it, and \<open>rest\<close> does
  not go on with a digit.
\<close>

definition plain_file_name ::
  "string \<Rightarrow> string \<Rightarrow> string \<Rightarrow> string \<Rightarrow> string \<Rightarrow> string \<Rightarrow> string \<Rightarrow> bool" where
  "plain_file_name pre sem year mid num sec rest =
     (CHR ''S'' \<notin> set pre \<and> CHR ''F'' \<notin> set pre
      \<and> sem \<in> set [''Spring'', ''Fall'', ''Summer'']
      \<and> length year = 4 \<and> list_all is_digit year
      \<and> list_all is_dot mid \<and> \<not> py_in ''CMSI'' (mid @ ''CMS'')
      \<and> num \<noteq> [] \<and> list_all is_digit num
      \<and> sec \<noteq> [] \<and> list_all is_digit sec
      \<and> takeWhile is_digit rest = [])"

section \<open>Category mappers and question labels\<close>

text \<open>
  The three dictionaries of the module. A dictionary that is only looked up is a map; the
  question labels are iterated with \<open>.items()\<close> and \<open>.values()\<close>, so they are kept as
  the list of their entries in the order written.
\<close>

definition LIKERT_MAP :: "string \<rightharpoonup> int" where
  "LIKERT_MAP = map_of
     [(''Strongly Agree'', 5),
      (''Agree'', 4),
      (''Uncertain'', 3),
      (''Disagree'', 2),
      (''Strongly Disagree'', 1)]"

definition EFFECTIVENESS_MAP :: "string \<rightharpoonup> int" where
  "EFFECTIVENESS_MAP = map_of
     [(''Excellent'', 5),
      (''Very Good'', 4),
      (''Good'', 3),
      (''Fair'', 2),
      (''Very Poor'', 1)]"

definition QUESTION_LABELS :: "(string \<times> string) list" where
  "QUESTION_LABELS =
     [(''Learning outcomes for the course were clearly stated'', ''Outcomes Stated''),
      (''The learning outcomes were effectively addressed in the course'', ''Outcomes Addressed''),
      (''There were constructive interactions between the instructor and the students'',
         ''Interactions''),
      (''The instructor was accessible for discussions about the course'', ''Accessible''),
      (''I received feedback that improved my learning in this course'', ''Feedback''),
      (''The course challenged me to do my best work'', ''Challenged''),
      (''My experience in the course increased my interest in the subject matter'',
         ''Interest'')]"

section \<open>Response extractor\<close>

text \<open>
  One respondent's row, as \<open>csv.DictReader\<close> yields it: the cells in column order, each a
  column name with its answer. A cell the row is too short for holds \<open>None\<close> in Python;
  every test the code applies to a value treats \<open>None\<close> like the empty string, which
  stands for it here.
\<close>

type_synonym raw_record = "(string \<times> string) list"

text \<open>
  \<open>ratings\<close> is a \<open>defaultdict(list)\<close>: a label is absent until the first append to it.
  \<open>series\<close> reads the list under a label, empty when the label is absent.
\<close>

type_synonym ratings_dict = "string \<rightharpoonup> int list"

definition series :: "ratings_dict \<Rightarrow> string \<Rightarrow> int list" where
  "series d label = (case d label of None \<Rightarrow> [] | Some xs \<Rightarrow> xs)"

definition dd_append :: "ratings_dict \<Rightarrow> string \<Rightarrow> int \<Rightarrow> ratings_dict" where
  "dd_append d label v = d(label \<mapsto> series d label @ [v])"

text \<open>The loop over \<open>QUESTION_LABELS.items()\<close> for one cell.\<close>

fun question_loop ::
  "string \<Rightarrow> string \<Rightarrow> (string \<times> string) list \<Rightarrow> ratings_dict \<Rightarrow> ratings_dict" where
  "question_loop col val [] ratings = ratings"
| "question_loop col val ((q_text, label) # qs) ratings =
     (if py_in q_text col \<and> \<not> py_in ''_Comments'' col \<and> val \<in> dom LIKERT_MAP
      then question_loop col val qs (dd_append ratings label (the (LIKERT_MAP val)))
      else question_loop col val qs ratings)"

text \<open>The loop over the cells of one row.\<close>

fun rating_cell_loop ::
  "raw_record \<Rightarrow> ratings_dict \<times> int list \<Rightarrow> ratings_dict \<times> int list" where
  "rating_cell_loop [] st = st"
| "rating_cell_loop ((col, val) # cells) (ratings, effectiveness_ratings) =
     (let ratings' = question_loop col val QUESTION_LABELS ratings;
          effectiveness_ratings' =
            (if py_in ''overall effectiveness'' (py_lower col) \<and> \<not> py_in ''_Comments'' col
             then (if val \<in> dom EFFECTIVENESS_MAP
                   then effectiveness_ratings @ [the (EFFECTIVENESS_MAP val)]
                   else effectiveness_ratings)
             else effectiveness_ratings)
      in rating_cell_loop cells (ratings', effectiveness_ratings'))"

text \<open>The loop over the rows.\<close>

fun rating_resp_loop ::
  "raw_record list \<Rightarrow> ratings_dict \<times> int list \<Rightarrow> ratings_dict \<times> int list" where
  "rating_resp_loop [] st = st"
| "rating_resp_loop (resp # responses) st =
     rating_resp_loop responses (rating_cell_loop resp st)"

definition extract_ratings :: "raw_record list \<Rightarrow> ratings_dict \<times> int list" where
  "extract_ratings responses = rating_resp_loop responses (Map.empty, [])"

text \<open>
  The tests of the contract on one cell: the cell counts for the question with text
  \<open>q_text\<close>, and the cell counts for the overall effectiveness.
\<close>

definition likert_cell :: "string \<Rightarrow> string \<times> string \<Rightarrow> bool" where
  "likert_cell q_text cell =
     (py_in q_text (fst cell) \<and> \<not> py_in ''_Comments'' (fst cell) \<and> snd cell \<in> dom LIKERT_MAP)"

definition effectiveness_cell :: "string \<times> string \<Rightarrow> bool" where
  "effectiveness_cell cell =
     (occurs_ci ''overall effectiveness'' (fst cell) \<and> \<not> py_in ''_Comments'' (fst cell)
      \<and> snd cell \<in> dom EFFECTIVENESS_MAP)"

text \<open>
  What one cell adds to the series of a label: the score of its value, once for every
  question of that label whose tests the cell passes.
\<close>

definition label_hits :: "string \<Rightarrow> string \<times> string \<Rightarrow> int list" where
  "label_hits l cell = map (\<lambda>_. the (LIKERT_MAP (snd cell)))
       (filter (\<lambda>ql. snd ql = l \<and> likert_cell (fst ql) cell) QUESTION_LABELS)"

section \<open>Comment extractor\<close>

fun comment_cell_loop ::
  "raw_record \<Rightarrow> string list \<times> string list \<Rightarrow> string list \<times> string list" where
  "comment_cell_loop [] st = st"
| "comment_cell_loop ((col, val) # cells) (beneficial_comments, improvement_comments) =
     (if py_in ''most beneficial'' (py_lower col) \<and> val \<noteq> [] \<and> val \<noteq> ''D/A''
      then comment_cell_loop cells
             (beneficial_comments @ [py_strip val], improvement_comments)
      else if py_in ''more effective'' (py_lower col) \<and> val \<noteq> [] \<and> val \<noteq> ''D/A''
      then comment_cell_loop cells
             (beneficial_comments, improvement_comments @ [py_strip val])
      else comment_cell_loop cells (beneficial_comments, improvement_comments))"

fun comment_resp_loop ::
  "raw_record list \<Rightarrow> string list \<times> string list \<Rightarrow> string list \<times> string list" where
  "comment_resp_loop [] st = st"
| "comment_resp_loop (resp # responses) st =
     comment_resp_loop responses (comment_cell_loop resp st)"

definition extract_comments :: "raw_record list \<Rightarrow> string list \<times> string list" where
  "extract_comments responses = comment_resp_loop responses ([], [])"

text \<open>
  The tests the code applies to a cell: the value as read, not trimmed, is non-empty and
  is not the token \<open>D/A\<close>; the improvement branch is the \<open>elif\<close> of the benefit branch.
\<close>

definition answered :: "string \<Rightarrow> bool" where
  "answered val = (val \<noteq> [] \<and> val \<noteq> ''D/A'')"

definition benefit_cell :: "string \<times> string \<Rightarrow> bool" where
  "benefit_cell cell = (occurs_ci ''most beneficial'' (fst cell) \<and> answered (snd cell))"

definition improvement_cell :: "string \<times> string \<Rightarrow> bool" where
  "improvement_cell cell =
     (occurs_ci ''more effective'' (fst cell) \<and> \<not> occurs_ci ''most beneficial'' (fst cell)
      \<and> answered (snd cell))"

text \<open>
  The tests as the specification words them: the trimmed value is non-empty and is not
  the token, and the rule for the improvement sequence mirrors the one for the benefit
  sequence.
\<close>

definition spec_answered :: "string \<Rightarrow> bool" where
  "spec_answered val = (py_strip val \<noteq> [] \<and> py_strip val \<noteq> ''D/A'')"

definition spec_benefit_cell :: "string \<times> string \<Rightarrow> bool" where
  "spec_benefit_cell cell =
     (occurs_ci ''most beneficial'' (fst cell) \<and> spec_answered (snd cell))"

definition spec_improvement_cell :: "string \<times> string \<Rightarrow> bool" where
  "spec_improvement_cell cell =
     (occurs_ci ''more effective'' (fst cell) \<and> spec_answered (snd cell))"

section \<open>Statistics reducer\<close>

text \<open>
  \<open>statistics.mean\<close> and \<open>statistics.stdev\<close> are functions of the Python standard
  library. On integers they compute with exact fractions and round only the value they
  return; the model keeps the exact real number. Both raise \<open>StatisticsError\<close> on too
  few data points. \<open>stdev\<close> takes the sum of squared deviations as
  \<open>(n * sxx - sx * sx) / n\<close>, divides it by \<open>n - 1\<close> and returns the square root.
\<close>

datatype py_error = StatisticsError | TypeError

definition statistics_mean :: "int list \<Rightarrow> py_error + real" where
  "statistics_mean data =
     (if data = [] then Inl StatisticsError
      else Inr (real_of_int (sum_list data) / real (length data)))"

definition statistics_stdev :: "int list \<Rightarrow> py_error + real" where
  "statistics_stdev data =
     (let n = length data;
          sx = sum_list data;
          sxx = sum_list (map (\<lambda>x. x * x) data)
      in if n < 2 then Inl StatisticsError
         else (let ssd = (real n * real_of_int sxx - real_of_int (sx * sx)) / real n;
                   mss = ssd / real (n - 1)
               in Inr (sqrt mss)))"

definition calculate_stats :: "int list \<Rightarrow> py_error + (real option \<times> real option)" where
  "calculate_stats vals =
     (if vals = [] then Inr (None, None)
      else (case statistics_mean vals of
              Inl e \<Rightarrow> Inl e
            | Inr mean \<Rightarrow>
                (case (if 1 < length vals then statistics_stdev vals else Inr 0) of
                   Inl e \<Rightarrow> Inl e
                 | Inr stdev \<Rightarrow> Inr (Some mean, Some stdev))))"

text \<open>The arithmetic mean and the unbiased sample standard deviation, as textbooks give them.\<close>

definition arithmetic_mean :: "int list \<Rightarrow> real" where
  "arithmetic_mean xs = real_of_int (sum_list xs) / real (length xs)"

definition sample_sd :: "int list \<Rightarrow> real" where
  "sample_sd xs =
     sqrt (sum_list (map (\<lambda>x. (real_of_int x - arithmetic_mean xs)\<^sup>2) xs)
           / (real (length xs) - 1))"

section \<open>Aggregator\<close>

text \<open>
  The part of \<open>main\<close> that builds the running totals and the ranking. What \<open>main\<close> prints
  is left out, and so are the calls of \<open>calculate_stats\<close> that only feed a print in the
  loop over the files. An input file is the pair of its name and the rows
  \<open>load_eval_file\<close> reads from it.
\<close>

record course_summary =
  cs_semester :: string
  cs_course :: string
  cs_section :: string
  cs_n_responses :: nat
  cs_effectiveness :: "int list"
  cs_ratings :: ratings_dict
  cs_beneficial :: "string list"
  cs_improvement :: "string list"

record run_state =
  all_ratings :: ratings_dict
  all_effectiveness :: "int list"
  all_beneficial :: "string list"
  all_improvement :: "string list"
  course_summaries :: "course_summary list"

definition initial_state :: run_state where
  "initial_state =
     \<lparr>all_ratings = Map.empty, all_effectiveness = [], all_beneficial = [],
      all_improvement = [], course_summaries = []\<rparr>"

text \<open>
  The loop \<open>for label in QUESTION_LABELS.values()\<close> of one file: a label present in the
  file's ratings with a non-empty list extends the list under that label in the totals.
\<close>

fun extend_ratings :: "string list \<Rightarrow> ratings_dict \<Rightarrow> ratings_dict \<Rightarrow> ratings_dict" where
  "extend_ratings [] ratings totals = totals"
| "extend_ratings (label # labels) ratings totals =
     (if label \<in> dom ratings \<and> series ratings label \<noteq> []
      then extend_ratings labels ratings
             (totals(label \<mapsto> series totals label @ series ratings label))
      else extend_ratings labels ratings totals)"

definition process_file :: "run_state \<Rightarrow> string \<times> raw_record list \<Rightarrow> run_state" where
  "process_file st file =
     (let (semester, course, section) = parse_course_info (fst file);
          responses = snd file;
          n_responses = length responses;
          (ratings, effectiveness) = extract_ratings responses;
          (beneficial, improvement) = extract_comments responses;
          st1 = (if effectiveness \<noteq> []
                 then st\<lparr>all_effectiveness := all_effectiveness st @ effectiveness\<rparr>
                 else st);
          st2 = st1\<lparr>all_ratings :=
                  extend_ratings (map snd QUESTION_LABELS) ratings (all_ratings st1)\<rparr>;
          st3 = st2\<lparr>course_summaries := course_summaries st2 @
                  [\<lparr>cs_semester = semester, cs_course = course, cs_section = section,
                    cs_n_responses = n_responses, cs_effectiveness = effectiveness,
                    cs_ratings = ratings, cs_beneficial = beneficial,
                    cs_improvement = improvement\<rparr>]\<rparr>
      in st3\<lparr>all_beneficial := all_beneficial st3 @ beneficial,
              all_improvement := all_improvement st3 @ improvement\<rparr>)"

text \<open>The respondent count \<open>main\<close> records in the summary of a file.\<close>

definition n_responses_of :: "string \<times> raw_record list \<Rightarrow> nat" where
  "n_responses_of file = cs_n_responses (last (course_summaries (process_file initial_state file)))"

text \<open>
  \<open>for filepath in sorted(eval_files)\<close>: the files are those of one directory, so the
  paths are ordered by their names. On POSIX the names compare code point by code point;
  on Windows they compare after case folding. \<open>path_key\<close> is the key a platform
  compares the names by: the name itself on POSIX, its lower-case form on Windows.
\<close>

definition process_files ::
  "(string \<Rightarrow> 'k :: linorder) \<Rightarrow> (string \<times> raw_record list) list \<Rightarrow> run_state" where
  "process_files path_key eval_files =
     foldl process_file initial_state (sort_key (\<lambda>file. path_key (fst file)) eval_files)"

text \<open>
  A ranked entry is the tuple \<open>(mean, std, label, n)\<close>. Python compares tuples
  lexicographically, which is the order of nested pairs used here.
\<close>

type_synonym ranked_stat = "real \<times> real \<times> string \<times> nat"

text \<open>
  The loop that fills \<open>sorted_ratings\<close>. Were \<open>calculate_stats\<close> to return the pair of
  \<open>None\<close>, the entry could be neither compared nor printed, a \<open>TypeError\<close>.
\<close>

fun rank_loop ::
  "string list \<Rightarrow> ratings_dict \<Rightarrow> ranked_stat list \<Rightarrow> py_error + ranked_stat list" where
  "rank_loop [] totals sorted_ratings = Inr sorted_ratings"
| "rank_loop (label # labels) totals sorted_ratings =
     (if label \<in> dom totals \<and> series totals label \<noteq> []
      then (case calculate_stats (series totals label) of
              Inl e \<Rightarrow> Inl e
            | Inr (Some mean, Some std) \<Rightarrow>
                rank_loop labels totals
                  (sorted_ratings @ [(mean, std, label, length (series totals label))])
            | Inr _ \<Rightarrow> Inl TypeError)
      else rank_loop labels totals sorted_ratings)"

text \<open>
  \<open>list.sort(reverse=True)\<close> reverses the list, sorts it stably in ascending order and
  reverses the result.
\<close>

definition py_sort_reverse :: "ranked_stat list \<Rightarrow> ranked_stat list" where
  "py_sort_reverse xs = rev (sort (rev xs))"

definition aggregate_ranking :: "ratings_dict \<Rightarrow> py_error + ranked_stat list" where
  "aggregate_ranking totals =
     (case rank_loop (map snd QUESTION_LABELS) totals [] of
        Inl e \<Rightarrow> Inl e
      | Inr sorted_ratings \<Rightarrow> Inr (py_sort_reverse sorted_ratings))"

text \<open>The slices \<open>sorted_ratings[:3]\<close> and \<open>sorted_ratings[-3:]\<close>.\<close>

definition top3 :: "'a list \<Rightarrow> 'a list" where
  "top3 xs = take 3 xs"

definition bottom3 :: "'a list \<Rightarrow> 'a list" where
  "bottom3 xs = drop (if length xs < 3 then 0 else length xs - 3) xs"

text \<open>The labels that have data in the totals, in declared order.\<close>

definition labels_with_data :: "ratings_dict \<Rightarrow> string list" where
  "labels_with_data totals =
     filter (\<lambda>label. series totals label \<noteq> []) (map snd QUESTION_LABELS)"

definition rs_mean :: "ranked_stat \<Rightarrow> real" where
  "rs_mean r = fst r"

definition rs_std :: "ranked_stat \<Rightarrow> real" where
  "rs_std r = fst (snd r)"

definition rs_label :: "ranked_stat \<Rightarrow> string" where
  "rs_label r = fst (snd (snd r))"

text \<open>
  The entry of a label with data: the mean of its series, its standard deviation (0 for
  a single score), the label and the number of scores.
\<close>

definition ranked_entry :: "ratings_dict \<Rightarrow> string \<Rightarrow> ranked_stat" where
  "ranked_entry totals label =
     (arithmetic_mean (series totals label),
      (if 1 < length (series totals label) then sample_sd (series totals label) else 0),
      label,
      length (series totals label))"

text \<open>
  The order in which two entries of the ranking stand: the higher mean first; on equal
  means the higher standard deviation first; on equal means and standard deviations the
  label that is later in the lexicographic order first.
\<close>

definition ranked_before :: "ranked_stat \<Rightarrow> ranked_stat \<Rightarrow> bool" where
  "ranked_before a b =
     (rs_mean b < rs_mean a
      \<or> (rs_mean a = rs_mean b
          \<and> (rs_std b < rs_std a
              \<or> (rs_std a = rs_std b \<and> rs_label b < rs_label a))))"

section \<open>Lemmas on the string primitives\<close>

lemma py_in_sublist: "py_in needle hay \<longleftrightarrow> sublist needle hay"
  by (induction hay) (simp_all add: sublist_Cons_right)

lemma py_in_iff: "py_in needle hay \<longleftrightarrow> (\<exists>p r. hay = p @ needle @ r)"
  by (simp add: py_in_sublist sublist_def)

lemma py_lower_append: "py_lower (a @ b) = py_lower a @ py_lower b"
  by (simp add: py_lower_def)

lemma py_lower_split:
  "py_lower s = a @ b \<Longrightarrow> \<exists>a' b'. s = a' @ b' \<and> py_lower a' = a \<and> py_lower b' = b"
  unfolding py_lower_def by (metis append_eq_map_conv)

lemma py_in_lower_iff:
  "py_in (py_lower kw) (py_lower comment) \<longleftrightarrow> occurs_ci kw comment"
proof
  assume "py_in (py_lower kw) (py_lower comment)"
  then obtain p r where "py_lower comment = p @ py_lower kw @ r"
    by (auto simp: py_in_iff)
  then obtain p' t where t: "comment = p' @ t" "py_lower t = py_lower kw @ r"
    using py_lower_split by blast
  then obtain u r' where "t = u @ r'" "py_lower u = py_lower kw"
    using py_lower_split by blast
  with t show "occurs_ci kw comment"
    unfolding occurs_ci_def by blast
next
  assume "occurs_ci kw comment"
  then obtain p u r where "comment = p @ u @ r" "py_lower u = py_lower kw"
    unfolding occurs_ci_def by blast
  then have "py_lower comment = py_lower p @ py_lower kw @ py_lower r"
    by (simp add: py_lower_append)
  then show "py_in (py_lower kw) (py_lower comment)"
    unfolding py_in_iff by blast
qed

lemma keywords_lower: "kw \<in> set positive_keywords \<Longrightarrow> py_lower kw = kw"
  by (auto simp: positive_keywords_def py_lower_def lower_char_def)

lemma distinct_keywords: "distinct positive_keywords"
  by (simp add: positive_keywords_def)

lemma positive_count_eq: "positive_count (py_lower comment) = int (distinct_hits comment)"
proof -
  have same: "filter (\<lambda>kw. py_in kw (py_lower comment)) positive_keywords
      = filter (\<lambda>kw. occurs_ci kw comment) positive_keywords"
    by (rule filter_cong) (auto simp: keywords_lower py_in_lower_iff [symmetric])
  have "positive_count (py_lower comment)
      = int (length (filter (\<lambda>kw. occurs_ci kw comment) positive_keywords))"
    unfolding positive_count_def same by (simp add: sum_list_triv)
  also have "length (filter (\<lambda>kw. occurs_ci kw comment) positive_keywords)
      = card (set (filter (\<lambda>kw. occurs_ci kw comment) positive_keywords))"
    by (rule distinct_card [symmetric]) (simp add: distinct_keywords)
  finally show ?thesis by (simp add: distinct_hits_def)
qed

lemma filter_loop_eq:
  "filter_loop m cs acc =
     acc @ filter (\<lambda>c. m \<le> int (length c) \<and> 2 \<le> distinct_hits c) cs"
proof (induction cs arbitrary: acc)
  case Nil
  then show ?case by simp
next
  case (Cons c cs)
  show ?case
    by (simp add: Cons.IH positive_count_eq Let_def)
qed

section \<open>The regular-expression items\<close>

lemma set_splits_greedy:
  "set (splits_greedy P s) = {(w, r). s = w @ r \<and> list_all P w}"
proof (induction s)
  case Nil
  then show ?case by auto
next
  case (Cons c cs)
  show ?case
  proof (intro set_eqI iffI)
    fix x assume "x \<in> set (splits_greedy P (c # cs))"
    then show "x \<in> {(w, r). c # cs = w @ r \<and> list_all P w}"
      using Cons by (auto split: if_splits)
  next
    fix x assume "x \<in> {(w, r). c # cs = w @ r \<and> list_all P w}"
    then obtain w r where x: "x = (w, r)" "c # cs = w @ r" "list_all P w" by auto
    show "x \<in> set (splits_greedy P (c # cs))"
    proof (cases "w = []")
      case True
      with x have "x = ([], c # cs)" by simp
      then show ?thesis by simp
    next
      case False
      then obtain a w' where w: "w = a # w'" by (cases w) auto
      with x have "a = c" "cs = w' @ r" "P c" "list_all P w'" by auto
      then have "(w', r) \<in> set (splits_greedy P cs)" using Cons.IH by simp
      with x w \<open>a = c\<close> \<open>P c\<close> show ?thesis by force
    qed
  qed
qed

lemma set_splits_lazy: "set (splits_lazy P s) = set (splits_greedy P s)"
  by (induction s) auto

lemma in_re_plus:
  "(w, r) \<in> set (re_plus P s) \<longleftrightarrow> s = w @ r \<and> w \<noteq> [] \<and> list_all P w"
  by (auto simp: re_plus_def set_splits_greedy)

lemma in_re_star_lazy:
  "(w, r) \<in> set (re_star_lazy P s) \<longleftrightarrow> s = w @ r \<and> list_all P w"
  by (auto simp: re_star_lazy_def set_splits_lazy set_splits_greedy)

lemma in_re_count:
  "(w, r) \<in> set (re_count n P s) \<longleftrightarrow> s = w @ r \<and> length w = n \<and> list_all P w"
  by (auto simp: re_count_def)

lemma in_re_lit: "(w, r) \<in> set (re_lit lit s) \<longleftrightarrow> s = lit @ r \<and> w = lit"
  by (auto simp: re_lit_def prefix_def)

lemma in_re_alt: "(w, r) \<in> set (re_alt ws s) \<longleftrightarrow> s = w @ r \<and> w \<in> set ws"
  by (auto simp: re_alt_def in_re_lit)

lemma in_bind:
  "x \<in> set (concat (map (\<lambda>(w, r). f w r) xs)) \<longleftrightarrow> (\<exists>w r. (w, r) \<in> set xs \<and> x \<in> set (f w r))"
  by force

lemma in_bind_last:
  "x \<in> set (map (\<lambda>(w, r). f w r) xs) \<longleftrightarrow> (\<exists>w r. (w, r) \<in> set xs \<and> x = f w r)"
  by force

lemmas in_items = in_bind in_bind_last in_re_plus in_re_star_lazy in_re_count in_re_lit in_re_alt

lemma match_here_sound:
  assumes "(g1, g2, g3, g4) \<in> set (match_here s)"
  shows "\<exists>ws1 mid ws2 num ws3 rest.
        s = g1 @ ws1 @ g2 @ mid @ ''CMSI'' @ ws2 @ num @ ws3 @ g4 @ rest
        \<and> g1 \<in> set [''Spring'', ''Fall'', ''Summer'']
        \<and> ws1 \<noteq> [] \<and> list_all is_space ws1
        \<and> length g2 = 4 \<and> list_all is_digit g2
        \<and> list_all is_dot mid
        \<and> g3 = ''CMSI'' @ ws2 @ num
        \<and> ws2 \<noteq> [] \<and> list_all is_space ws2
        \<and> num \<noteq> [] \<and> list_all is_digit num
        \<and> ws3 \<noteq> [] \<and> list_all is_space ws3
        \<and> g4 \<noteq> [] \<and> list_all is_digit g4"
  using assms unfolding match_here_def
  apply (simp only: in_items)
  apply (elim exE conjE)
  apply (simp only: prod.inject)
  apply (elim conjE)
  apply hypsubst
  apply (intro exI conjI)
  apply (rule refl)
  apply simp_all
  done

lemma match_here_complete:
  assumes "g1 \<in> set [''Spring'', ''Fall'', ''Summer'']"
    and "ws1 \<noteq> []" "list_all is_space ws1"
    and "length g2 = 4" "list_all is_digit g2"
    and "list_all is_dot mid"
    and "ws2 \<noteq> []" "list_all is_space ws2"
    and "num \<noteq> []" "list_all is_digit num"
    and "ws3 \<noteq> []" "list_all is_space ws3"
    and "g4 \<noteq> []" "list_all is_digit g4"
  shows "(g1, g2, ''CMSI'' @ ws2 @ num, g4)
     \<in> set (match_here (g1 @ ws1 @ g2 @ mid @ ''CMSI'' @ ws2 @ num @ ws3 @ g4 @ rest))"
  unfolding match_here_def
  apply (simp only: in_items)
  apply (intro exI conjI)
  apply (rule refl | rule assms)+
  done

section \<open>The search and the parser\<close>

lemma re_search_Some:
  "re_search s = Some m \<Longrightarrow> \<exists>pre t. s = pre @ t \<and> m \<in> set (match_here t)"
proof (induction s)
  case Nil
  then show ?case by (auto split: list.splits)
next
  case (Cons c cs)
  show ?case
  proof (cases "match_here (c # cs)")
    case Nil
    with Cons.prems have "re_search cs = Some m" by simp
    then obtain pre t where "cs = pre @ t" "m \<in> set (match_here t)"
      using Cons.IH by blast
    then have "c # cs = (c # pre) @ t \<and> m \<in> set (match_here t)" by simp
    then show ?thesis by blast
  next
    case (Cons m' ms)
    with Cons.prems have "m' = m" by simp
    with Cons have "c # cs = [] @ (c # cs) \<and> m \<in> set (match_here (c # cs))" by simp
    then show ?thesis by blast
  qed
qed

lemma re_search_None:
  "re_search (pre @ t) = None \<Longrightarrow> match_here t = []"
proof (induction pre)
  case Nil
  then show ?case by (cases t) (auto split: list.splits)
next
  case (Cons c pre)
  then show ?case by (auto split: list.splits)
qed

lemma py_replace_char_same: "py_replace_char c c s = s"
  by (simp add: py_replace_char_def map_idI)

lemma parse_course_info_found:
  assumes "contains_course_pattern s"
  shows "\<exists>sem year course sec. has_course_pattern s sem year course sec
           \<and> parse_course_info s = (sem @ '' '' @ year, course, sec)"
proof -
  from assms obtain sem year course sec pre ws1 mid ws2 num ws3 rest where
    s: "s = pre @ sem @ ws1 @ year @ mid @ ''CMSI'' @ ws2 @ num @ ws3 @ sec @ rest"
    and p: "sem \<in> set [''Spring'', ''Fall'', ''Summer'']" "ws1 \<noteq> []" "list_all is_space ws1"
      "length year = 4" "list_all is_digit year" "list_all is_dot mid"
      "ws2 \<noteq> []" "list_all is_space ws2" "num \<noteq> []" "list_all is_digit num"
      "ws3 \<noteq> []" "list_all is_space ws3" "sec \<noteq> []" "list_all is_digit sec"
    unfolding contains_course_pattern_def has_course_pattern_def by blast
  have "match_here (sem @ ws1 @ year @ mid @ ''CMSI'' @ ws2 @ num @ ws3 @ sec @ rest) \<noteq> []"
    using match_here_complete [OF p, of rest] by (metis empty_iff empty_set)
  then have "re_search s \<noteq> None"
    unfolding s using re_search_None by blast
  then obtain g1 g2 g3 g4 where found: "re_search s = Some (g1, g2, g3, g4)"
    by (cases "re_search s") auto
  then obtain pre' t where t: "s = pre' @ t" "(g1, g2, g3, g4) \<in> set (match_here t)"
    using re_search_Some by blast
  from match_here_sound [OF t(2)] t(1) have "has_course_pattern s g1 g2 g3 g4"
    unfolding has_course_pattern_def by blast
  moreover have "parse_course_info s = (g1 @ '' '' @ g2, g3, g4)"
    by (simp add: parse_course_info_def found py_replace_char_same)
  ultimately show ?thesis by blast
qed

lemma parse_course_info_absent:
  assumes "\<not> contains_course_pattern s"
  shows "parse_course_info s = (''Unknown'', ''Unknown'', ''00'')"
proof (cases "re_search s")
  case None
  then show ?thesis by (simp add: parse_course_info_def)
next
  case (Some m)
  obtain g1 g2 g3 g4 where m: "m = (g1, g2, g3, g4)" by (cases m) auto
  from Some obtain pre' t where t: "s = pre' @ t" "(g1, g2, g3, g4) \<in> set (match_here t)"
    using re_search_Some m by blast
  from match_here_sound [OF t(2)] t(1) have "has_course_pattern s g1 g2 g3 g4"
    unfolding has_course_pattern_def by blast
  with assms show ?thesis unfolding contains_course_pattern_def by blast
qed

subsection \<open>The first match\<close>

lemma splits_greedy_first:
  "\<exists>others. splits_greedy P s = (takeWhile P s, dropWhile P s) # others"
proof (induction s)
  case Nil
  then show ?case by simp
next
  case (Cons c cs)
  then obtain others where "splits_greedy P cs = (takeWhile P cs, dropWhile P cs) # others"
    by blast
  then show ?case by simp
qed

lemma re_plus_first:
  assumes "P c"
  shows "\<exists>others. re_plus P (c # cs) = (c # takeWhile P cs, dropWhile P cs) # others"
proof -
  obtain others where "splits_greedy P cs = (takeWhile P cs, dropWhile P cs) # others"
    using splits_greedy_first by blast
  with assms show ?thesis by (simp add: re_plus_def)
qed

lemma concat_map_first:
  assumes "xs = x # others" "f x = y # others'"
  shows "\<exists>rest. concat (map f xs) = y # rest"
  using assms by simp

lemma lazy_gap:
  assumes "list_all P u"
    and "\<forall>k < length u. f (take k u, drop k u @ r) = []"
  shows "concat (map f (splits_lazy P (u @ r))) =
     concat (map (\<lambda>x. f (u @ fst x, snd x)) (splits_lazy P r))"
  using assms
proof (induction u arbitrary: f)
  case Nil
  then show ?case by simp
next
  case (Cons c u)
  let ?g = "\<lambda>x. f (c # fst x, snd x)"
  from Cons.prems(2) have zero: "f ([], c # u @ r) = []" by force
  have "\<forall>k < length u. ?g (take k u, drop k u @ r) = []"
  proof (intro allI impI)
    fix k assume "k < length u"
    then have "Suc k < length (c # u)" by simp
    with Cons.prems(2) have "f (take (Suc k) (c # u), drop (Suc k) (c # u) @ r) = []"
      by blast
    then show "?g (take k u, drop k u @ r) = []" by simp
  qed
  with Cons.IH [of ?g] Cons.prems(1)
  have IH: "concat (map ?g (splits_lazy P (u @ r))) =
     concat (map (\<lambda>x. ?g (u @ fst x, snd x)) (splits_lazy P r))"
    by simp
  have "concat (map f (splits_lazy P ((c # u) @ r))) =
      f ([], c # u @ r) @ concat (map ?g (splits_lazy P (u @ r)))"
    using Cons.prems(1) by (simp add: comp_def case_prod_beta)
  also have "\<dots> = concat (map (\<lambda>x. ?g (u @ fst x, snd x)) (splits_lazy P r))"
    by (simp add: zero IH)
  finally show ?case by simp
qed

lemma splits_greedy_stuck: "takeWhile P s = [] \<Longrightarrow> splits_greedy P s = [([], s)]"
  by (cases s) (auto split: if_splits)

lemma re_plus_one:
  "P c \<Longrightarrow> takeWhile P s = [] \<Longrightarrow> re_plus P (c # s) = [([c], s)]"
  by (simp add: re_plus_def splits_greedy_stuck)

lemma re_plus_run:
  assumes "w \<noteq> []" "list_all P w" "takeWhile P s = []"
  shows "\<exists>others. re_plus P (w @ s) = (w, s) # others"
proof -
  from assms(1) obtain c w' where w: "w = c # w'" by (cases w) auto
  with assms(2) have c: "P c" and w': "\<forall>x \<in> set w'. P x" by (auto simp: list_all_iff)
  from w' have "takeWhile P (w' @ s) = w' @ takeWhile P s" by (simp add: takeWhile_append2)
  with assms(3) have t: "takeWhile P (w' @ s) = w'" by simp
  from w' assms(3) have d: "dropWhile P (w' @ s) = s"
    by (metis append_Nil dropWhile_append2 takeWhile_dropWhile_id)
  from re_plus_first [of P c "w' @ s"] c t d w show ?thesis by simp
qed

lemma digit_not_space: "is_digit c \<Longrightarrow> \<not> is_space c"
  by (auto simp: is_digit_def is_space_def)

lemma space_not_digit: "\<not> is_digit CHR '' ''"
  by (simp add: is_digit_def)

lemma space_is_space: "is_space CHR '' ''"
  by (simp add: is_space_def)

lemma digits_then: 
  assumes "w \<noteq> []" "list_all is_digit w"
  shows "takeWhile is_space (w @ s) = []"
proof -
  from assms obtain c w' where "w = c # w'" "is_digit c" by (cases w) auto
  then show ?thesis by (simp add: digit_not_space)
qed

lemma re_alt_semester:
  "sem \<in> set [''Spring'', ''Fall'', ''Summer''] \<Longrightarrow>
     re_alt [''Spring'', ''Fall'', ''Summer''] (sem @ s) = [(sem, s)]"
  by (auto simp: re_alt_def re_lit_def)

lemma re_count_exact:
  "length w = n \<Longrightarrow> list_all P w \<Longrightarrow> re_count n P (w @ s) = [(w, s)]"
  by (simp add: re_count_def)

lemma re_lit_here: "re_lit w (w @ s) = [(w, s)]"
  by (simp add: re_lit_def)

lemma no_early_cmsi:
  assumes "\<not> py_in ''CMSI'' (mid @ ''CMS'')" "k < length mid"
  shows "re_lit ''CMSI'' (drop k mid @ ''CMSI'' @ s) = []"
proof (rule ccontr)
  assume "re_lit ''CMSI'' (drop k mid @ ''CMSI'' @ s) \<noteq> []"
  then have pre: "prefix ''CMSI'' (drop k mid @ ''CMSI'' @ s)"
    by (simp add: re_lit_def split: if_splits)
  from assms(2) obtain c d where d: "drop k mid = c # d"
    by (cases "drop k mid") auto
  have "prefix ''CMSI'' ((c # d) @ ''CMS'')"
  proof (cases d)
    case Nil
    with pre d show ?thesis by simp
  next
    case (Cons c2 d2)
    note d1 = this
    show ?thesis
    proof (cases d2)
      case Nil
      with pre d d1 show ?thesis by simp
    next
      case (Cons c3 d3)
      note d2 = this
      show ?thesis
      proof (cases d3)
        case Nil
        with pre d d1 d2 show ?thesis by simp
      next
        case (Cons c4 d4)
        with pre d d1 d2 show ?thesis by simp
      qed
    qed
  qed
  then obtain t where "(c # d) @ ''CMS'' = ''CMSI'' @ t" by (auto simp: prefix_def)
  then have "mid @ ''CMS'' = take k mid @ ''CMSI'' @ t"
    using d by (metis append_assoc append_take_drop_id)
  with assms(1) show False unfolding py_in_iff by blast
qed

lemmas no_early_cmsi_cons = no_early_cmsi [simplified]

lemma match_here_canonical:
  assumes sem: "sem \<in> set [''Spring'', ''Fall'', ''Summer'']"
    and year: "length year = 4" "list_all is_digit year"
    and mid: "list_all is_dot mid" "\<not> py_in ''CMSI'' (mid @ ''CMS'')"
    and num: "num \<noteq> []" "list_all is_digit num"
    and sec: "sec \<noteq> []" "list_all is_digit sec"
    and rest: "takeWhile is_digit rest = []"
  shows "\<exists>others.
     match_here (sem @ '' '' @ year @ mid @ ''CMSI'' @ '' '' @ num @ '' '' @ sec @ rest)
       = (sem, year, ''CMSI'' @ '' '' @ num, sec) # others"
proof -
  from year have ynz: "year \<noteq> []" by auto
  have s1: "re_plus is_space (CHR '' '' # year @ z) = [('' '', year @ z)]" for z
    using re_plus_one [OF space_is_space digits_then [OF ynz year(2)]] .
  have s6: "re_plus is_space (CHR '' '' # num @ z) = [('' '', num @ z)]" for z
    using re_plus_one [OF space_is_space digits_then [OF num]] .
  have s8: "re_plus is_space (CHR '' '' # sec @ z) = [('' '', sec @ z)]" for z
    using re_plus_one [OF space_is_space digits_then [OF sec]] .
  have "takeWhile is_digit (CHR '' '' # sec @ rest) = []"
    by (simp add: space_not_digit)
  from re_plus_run [OF num this]
  obtain o7 where e7: "re_plus is_digit (num @ CHR '' '' # sec @ rest)
      = (num, CHR '' '' # sec @ rest) # o7" by blast
  from re_plus_run [OF sec rest]
  obtain o9 where e9: "re_plus is_digit (sec @ rest) = (sec, rest) # o9" by blast
  have lit: "re_lit ''CMSI'' (CHR ''C'' # CHR ''M'' # CHR ''S'' # CHR ''I'' # z) = [(''CMSI'', z)]" for z
    using re_lit_here [of "''CMSI''" z] by simp
  have gap: "splits_lazy is_dot (CHR ''C'' # z) = ([], CHR ''C'' # z) # map (\<lambda>(w, r). (CHR ''C'' # w, r)) (splits_lazy is_dot z)" for z
    by (simp add: is_dot_def)
  show ?thesis
    unfolding match_here_def
    by (simp add: re_alt_semester [OF sem] s1 re_count_exact [OF year] re_star_lazy_def
        lazy_gap [OF mid(1)] no_early_cmsi_cons [OF mid(2)] gap lit s6 e7 s8 e9)
qed

lemma match_here_other_start:
  "c \<noteq> CHR ''S'' \<Longrightarrow> c \<noteq> CHR ''F'' \<Longrightarrow> match_here (c # s) = []"
  by (simp add: match_here_def re_alt_def re_lit_def)

lemma re_search_skip:
  "CHR ''S'' \<notin> set pre \<Longrightarrow> CHR ''F'' \<notin> set pre \<Longrightarrow> re_search (pre @ t) = re_search t"
  by (induction pre) (auto simp: match_here_other_start)

lemma re_search_here:
  assumes "match_here t = m # others"
  shows "re_search t = Some m"
  using assms by (cases t) simp_all

lemma parse_course_info_plain:
  assumes "plain_file_name pre sem year mid num sec rest"
  shows "parse_course_info
           (pre @ sem @ '' '' @ year @ mid @ ''CMSI'' @ '' '' @ num @ '' '' @ sec @ rest)
         = (sem @ '' '' @ year, ''CMSI'' @ '' '' @ num, sec)"
proof -
  from assms have pre: "CHR ''S'' \<notin> set pre" "CHR ''F'' \<notin> set pre"
    and parts: "sem \<in> set [''Spring'', ''Fall'', ''Summer'']"
      "length year = 4" "list_all is_digit year"
      "list_all is_dot mid" "\<not> py_in ''CMSI'' (mid @ ''CMS'')"
      "num \<noteq> []" "list_all is_digit num"
      "sec \<noteq> []" "list_all is_digit sec"
      "takeWhile is_digit rest = []"
    unfolding plain_file_name_def by blast+
  from match_here_canonical [OF parts] obtain others where
    "match_here (sem @ '' '' @ year @ mid @ ''CMSI'' @ '' '' @ num @ '' '' @ sec @ rest)
       = (sem, year, ''CMSI'' @ '' '' @ num, sec) # others"
    by blast
  then have "re_search (sem @ '' '' @ year @ mid @ ''CMSI'' @ '' '' @ num @ '' '' @ sec @ rest)
       = Some (sem, year, ''CMSI'' @ '' '' @ num, sec)"
    by (rule re_search_here)
  then have "re_search
       (pre @ sem @ '' '' @ year @ mid @ ''CMSI'' @ '' '' @ num @ '' '' @ sec @ rest)
       = Some (sem, year, ''CMSI'' @ '' '' @ num, sec)"
    by (simp only: re_search_skip [OF pre])
  then show ?thesis
    by (simp add: parse_course_info_def py_replace_char_same)
qed

section \<open>The extractors\<close>

lemma py_in_lower_literal:
  "py_lower kw = kw \<Longrightarrow> py_in kw (py_lower col) \<longleftrightarrow> occurs_ci kw col"
  using py_in_lower_iff [of kw col] by simp

lemma lower_most_beneficial: "py_lower ''most beneficial'' = ''most beneficial''"
  by (simp add: py_lower_def lower_char_def)

lemma lower_more_effective: "py_lower ''more effective'' = ''more effective''"
  by (simp add: py_lower_def lower_char_def)

lemma lower_overall_effectiveness: "py_lower ''overall effectiveness'' = ''overall effectiveness''"
  by (simp add: py_lower_def lower_char_def)

subsection \<open>Comment extractor\<close>

lemma comment_cell_loop_eq:
  "comment_cell_loop cells (b, i) =
     (b @ map (\<lambda>cell. py_strip (snd cell)) (filter benefit_cell cells),
      i @ map (\<lambda>cell. py_strip (snd cell)) (filter improvement_cell cells))"
proof (induction cells arbitrary: b i)
  case Nil
  then show ?case by simp
next
  case (Cons cell cells)
  obtain col v where cell: "cell = (col, v)" by (cases cell)
  show ?case
    unfolding cell
    by (simp add: Cons.IH benefit_cell_def improvement_cell_def answered_def
        py_in_lower_literal lower_most_beneficial lower_more_effective)
qed

lemma comment_resp_loop_eq:
  "comment_resp_loop responses (b, i) =
     (b @ map (\<lambda>cell. py_strip (snd cell)) (filter benefit_cell (concat responses)),
      i @ map (\<lambda>cell. py_strip (snd cell)) (filter improvement_cell (concat responses)))"
  by (induction responses arbitrary: b i) (simp_all add: comment_cell_loop_eq)

subsection \<open>Response extractor\<close>

lemma series_dd_append:
  "series (dd_append d l' v) l = (if l = l' then series d l @ [v] else series d l)"
  by (simp add: series_def dd_append_def)

lemma series_question_loop:
  "series (question_loop col v qs r) l =
     series r l @ map (\<lambda>_. the (LIKERT_MAP v))
       (filter (\<lambda>ql. snd ql = l \<and> likert_cell (fst ql) (col, v)) qs)"
proof (induction qs arbitrary: r)
  case Nil
  then show ?case by simp
next
  case (Cons ql qs)
  obtain q l' where ql: "ql = (q, l')" by (cases ql)
  show ?case
    unfolding ql by (auto simp: Cons.IH series_dd_append likert_cell_def)
qed

lemma rating_cell_loop_fst:
  "series (fst (rating_cell_loop cells st)) l =
     series (fst st) l @ concat (map (label_hits l) cells)"
proof (induction cells arbitrary: st)
  case Nil
  then show ?case by simp
next
  case (Cons cell cells)
  obtain col v where cell: "cell = (col, v)" by (cases cell)
  obtain r e where st: "st = (r, e)" by (cases st)
  show ?case
    unfolding cell st
    by (simp add: Cons.IH Let_def series_question_loop label_hits_def)
qed

lemma rating_cell_loop_snd:
  "snd (rating_cell_loop cells st) =
     snd st @ map (\<lambda>cell. the (EFFECTIVENESS_MAP (snd cell))) (filter effectiveness_cell cells)"
proof (induction cells arbitrary: st)
  case Nil
  then show ?case by simp
next
  case (Cons cell cells)
  obtain col v where cell: "cell = (col, v)" by (cases cell)
  obtain r e where st: "st = (r, e)" by (cases st)
  show ?case
    unfolding cell st
    by (simp add: Cons.IH Let_def effectiveness_cell_def py_in_lower_literal
        lower_overall_effectiveness)
qed

lemma rating_resp_loop_fst:
  "series (fst (rating_resp_loop responses st)) l =
     series (fst st) l @ concat (map (label_hits l) (concat responses))"
  by (induction responses arbitrary: st) (simp_all add: rating_cell_loop_fst)

lemma rating_resp_loop_snd:
  "snd (rating_resp_loop responses st) =
     snd st @ map (\<lambda>cell. the (EFFECTIVENESS_MAP (snd cell)))
       (filter effectiveness_cell (concat responses))"
  by (induction responses arbitrary: st) (simp_all add: rating_cell_loop_snd)

lemma distinct_labels: "distinct (map snd QUESTION_LABELS)"
  by (simp add: QUESTION_LABELS_def)

lemma filter_by_label:
  "distinct (map snd qs) \<Longrightarrow> (q, l) \<in> set qs \<Longrightarrow>
     filter (\<lambda>ql. snd ql = l \<and> P (fst ql)) qs = (if P q then [(q, l)] else [])"
proof (induction qs)
  case Nil
  then show ?case by simp
next
  case (Cons a qs)
  show ?case
  proof (cases "a = (q, l)")
    case True
    with Cons.prems have "\<forall>x \<in> set qs. snd x \<noteq> l" by force
    then have "filter (\<lambda>ql. snd ql = l \<and> P (fst ql)) qs = []"
      by (simp add: filter_empty_conv)
    with True show ?thesis by simp
  next
    case False
    with Cons.prems have in_qs: "(q, l) \<in> set qs" by simp
    then have "l \<in> snd ` set qs" by force
    moreover from Cons.prems have "snd a \<notin> snd ` set qs" by simp
    ultimately have "snd a \<noteq> l" by blast
    with Cons in_qs show ?thesis by simp
  qed
qed

lemma label_hits_question:
  "(q, l) \<in> set QUESTION_LABELS \<Longrightarrow>
     label_hits l cell = (if likert_cell q cell then [the (LIKERT_MAP (snd cell))] else [])"
  unfolding label_hits_def
  by (simp add: filter_by_label [OF distinct_labels, where P = "\<lambda>q. likert_cell q cell"])

lemma concat_map_if:
  "concat (map (\<lambda>x. if P x then [f x] else []) xs) = map f (filter P xs)"
  by (induction xs) simp_all

lemma series_empty: "series Map.empty l = []"
  by (simp add: series_def)

subsection \<open>Where the scores come from\<close>

lemma likert_range: "LIKERT_MAP k = Some v \<Longrightarrow> 1 \<le> v \<and> v \<le> 5"
  by (auto simp: LIKERT_MAP_def split: if_splits)

lemma effectiveness_range: "EFFECTIVENESS_MAP k = Some v \<Longrightarrow> 1 \<le> v \<and> v \<le> 5"
  by (auto simp: EFFECTIVENESS_MAP_def split: if_splits)

lemma label_hits_origin:
  "v \<in> set (label_hits l cell) \<Longrightarrow> LIKERT_MAP (snd cell) = Some v"
  by (auto simp: label_hits_def likert_cell_def)

lemma question_series_origin:
  assumes "v \<in> set (series (fst (extract_ratings responses)) l)"
  shows "\<exists>cell \<in> set (concat responses). LIKERT_MAP (snd cell) = Some v"
proof -
  from assms obtain cell where "cell \<in> set (concat responses)" "v \<in> set (label_hits l cell)"
    by (auto simp: extract_ratings_def rating_resp_loop_fst series_empty)
  then show ?thesis using label_hits_origin by blast
qed

lemma effectiveness_series_origin:
  assumes "v \<in> set (snd (extract_ratings responses))"
  shows "\<exists>cell \<in> set (concat responses). EFFECTIVENESS_MAP (snd cell) = Some v"
proof -
  from assms obtain cell where "cell \<in> set (concat responses)" "effectiveness_cell cell"
      "v = the (EFFECTIVENESS_MAP (snd cell))"
    by (auto simp: extract_ratings_def rating_resp_loop_snd)
  then have "cell \<in> set (concat responses) \<and> EFFECTIVENESS_MAP (snd cell) = Some v"
    by (auto simp: effectiveness_cell_def)
  then show ?thesis by blast
qed

lemma question_loop_unmapped:
  "v \<notin> dom LIKERT_MAP \<Longrightarrow> question_loop col v qs r = r"
  by (induction qs arbitrary: r) auto

lemma rating_cell_loop_unmapped:
  "\<forall>cell \<in> set cells. snd cell \<notin> dom LIKERT_MAP \<and> snd cell \<notin> dom EFFECTIVENESS_MAP
     \<Longrightarrow> rating_cell_loop cells st = st"
proof (induction cells arbitrary: st)
  case Nil
  then show ?case by simp
next
  case (Cons cell cells)
  obtain col v where cell: "cell = (col, v)" by (cases cell)
  obtain r e where st: "st = (r, e)" by (cases st)
  from Cons.prems cell have "v \<notin> dom LIKERT_MAP" "v \<notin> dom EFFECTIVENESS_MAP" by auto
  with Cons show ?case
    unfolding cell st by (simp add: question_loop_unmapped)
qed

lemma rating_resp_loop_snoc:
  "rating_resp_loop (responses @ [resp]) st = rating_cell_loop resp (rating_resp_loop responses st)"
  by (induction responses arbitrary: st) simp_all

lemma extract_ratings_unmapped:
  "\<forall>cell \<in> set resp. snd cell \<notin> dom LIKERT_MAP \<and> snd cell \<notin> dom EFFECTIVENESS_MAP
     \<Longrightarrow> extract_ratings (responses @ [resp]) = extract_ratings responses"
  by (simp add: extract_ratings_def rating_resp_loop_snoc rating_cell_loop_unmapped)

lemma process_file_summary:
  "course_summaries (process_file st (name, responses)) =
     course_summaries st @
       [\<lparr>cs_semester = fst (parse_course_info name),
         cs_course = fst (snd (parse_course_info name)),
         cs_section = snd (snd (parse_course_info name)),
         cs_n_responses = length responses,
         cs_effectiveness = snd (extract_ratings responses),
         cs_ratings = fst (extract_ratings responses),
         cs_beneficial = fst (extract_comments responses),
         cs_improvement = snd (extract_comments responses)\<rparr>]"
  by (simp add: process_file_def Let_def split: prod.splits)

lemma n_responses_of_eq: "n_responses_of (name, responses) = length responses"
  by (simp add: n_responses_of_def process_file_summary)

section \<open>The statistics\<close>

lemma sum_squared_deviations:
  "sum_list (map (\<lambda>x. (real_of_int x - m)\<^sup>2) xs) =
     real_of_int (sum_list (map (\<lambda>x. x * x) xs)) - 2 * m * real_of_int (sum_list xs)
       + real (length xs) * m\<^sup>2"
  by (induction xs) (simp_all add: power2_eq_square algebra_simps)

lemma ssd_about_mean:
  assumes "xs \<noteq> []"
  shows "sum_list (map (\<lambda>x. (real_of_int x - arithmetic_mean xs)\<^sup>2) xs) =
     (real (length xs) * real_of_int (sum_list (map (\<lambda>x. x * x) xs))
        - real_of_int (sum_list xs * sum_list xs)) / real (length xs)"
proof -
  from assms have n: "real (length xs) \<noteq> 0" by simp
  show ?thesis
    unfolding sum_squared_deviations arithmetic_mean_def using n
    by (simp add: power2_eq_square field_simps)
qed

lemma statistics_stdev_eq:
  assumes "2 \<le> length xs"
  shows "statistics_stdev xs = Inr (sample_sd xs)"
proof -
  from assms have ne: "xs \<noteq> []" by auto
  from assms have n1: "real (length xs - 1) = real (length xs) - 1" by (simp add: of_nat_diff)
  from assms have "\<not> length xs < 2" by simp
  then show ?thesis
    by (simp add: statistics_stdev_def Let_def sample_sd_def ssd_about_mean [OF ne] n1)
qed

lemma calculate_stats_many:
  assumes "2 \<le> length xs"
  shows "calculate_stats xs = Inr (Some (arithmetic_mean xs), Some (sample_sd xs))"
proof -
  from assms have "xs \<noteq> []" "1 < length xs" by auto
  then show ?thesis
    by (simp add: calculate_stats_def statistics_mean_def statistics_stdev_eq [OF assms]
        arithmetic_mean_def)
qed

lemma calculate_stats_one: "calculate_stats [x] = Inr (Some (real_of_int x), Some 0)"
  by (simp add: calculate_stats_def statistics_mean_def)

lemma sum_list_squares_replicate:
  "sum_list (map (\<lambda>x. x * x) (replicate n k)) = int n * (k * k)"
  by (induction n) (simp_all add: algebra_simps)

lemma calculate_stats_constant:
  assumes "0 < n"
  shows "calculate_stats (replicate n k) = Inr (Some (real_of_int k), Some 0)"
proof -
  from assms have ne: "replicate n k \<noteq> []" by auto
  have mean: "statistics_mean (replicate n k) = Inr (real_of_int k)"
    using assms by (simp add: statistics_mean_def sum_list_replicate)
  have sd: "statistics_stdev (replicate n k) = Inr 0" if "1 < n"
    using that
    by (simp add: statistics_stdev_def Let_def sum_list_replicate sum_list_squares_replicate
        algebra_simps)
  show ?thesis
    using ne by (simp add: calculate_stats_def mean sd)
qed

lemma sum_list_mset_cong: "mset xs = mset ys \<Longrightarrow> sum_list xs = sum_list (ys :: int list)"
  by (metis sum_mset_sum_list)

lemma sum_list_map_mset_cong:
  "mset xs = mset ys \<Longrightarrow> sum_list (map f xs) = sum_list (map f ys :: int list)"
  by (metis mset_map sum_mset_sum_list)

lemma calculate_stats_mset:
  assumes "mset xs = mset ys"
  shows "calculate_stats xs = calculate_stats ys"
proof -
  from assms have len: "length xs = length ys" by (rule mset_eq_length)
  then have emp: "xs = [] \<longleftrightarrow> ys = []" by auto
  have s1: "sum_list xs = sum_list ys" using assms by (rule sum_list_mset_cong)
  have s2: "sum_list (map (\<lambda>x. x * x) xs) = sum_list (map (\<lambda>x. x * x) ys)"
    using assms by (rule sum_list_map_mset_cong)
  show ?thesis
    by (simp add: calculate_stats_def statistics_mean_def statistics_stdev_def len emp s1 s2)
qed

lemma mset_concat_cong: "mset xss = mset yss \<Longrightarrow> mset (concat xss) = mset (concat yss)"
  by (metis mset_concat mset_map sum_mset_sum_list)

section \<open>The aggregator\<close>

subsection \<open>Folding the files\<close>

lemma series_absent: "label \<notin> dom d \<Longrightarrow> series d label = []"
  by (auto simp: series_def split: option.splits)

lemma series_upd:
  "series (d(l' \<mapsto> xs)) l = (if l = l' then xs else series d l)"
  by (simp add: series_def)

lemma series_extend_ratings:
  "distinct labels \<Longrightarrow>
     series (extend_ratings labels ratings totals) l =
       series totals l @ (if l \<in> set labels then series ratings l else [])"
proof (induction labels arbitrary: totals)
  case Nil
  then show ?case by simp
next
  case (Cons label labels)
  then have IH: "\<And>t. series (extend_ratings labels ratings t) l =
       series t l @ (if l \<in> set labels then series ratings l else [])"
    and notin: "label \<notin> set labels" by simp_all
  show ?case
  proof (cases "label \<in> dom ratings \<and> series ratings label \<noteq> []")
    case True
    then show ?thesis using notin by (auto simp: IH series_upd)
  next
    case False
    then have "series ratings label = []" using series_absent by blast
    with False show ?thesis using notin by (auto simp: IH)
  qed
qed

lemma label_hits_foreign:
  "l \<notin> set (map snd QUESTION_LABELS) \<Longrightarrow> label_hits l cell = []"
  by (auto simp: label_hits_def filter_empty_conv)

lemma series_extract_foreign:
  assumes "l \<notin> set (map snd QUESTION_LABELS)"
  shows "series (fst (extract_ratings responses)) l = []"
proof -
  have "label_hits l = (\<lambda>cell. [])" using assms label_hits_foreign by blast
  then show ?thesis
    by (simp add: extract_ratings_def rating_resp_loop_fst series_empty)
qed

lemma process_file_ratings:
  "series (all_ratings (process_file st file)) l =
     series (all_ratings st) l @ series (fst (extract_ratings (snd file))) l"
proof -
  have "series (extend_ratings (map snd QUESTION_LABELS) (fst (extract_ratings (snd file)))
           (all_ratings st)) l
      = series (all_ratings st) l @ series (fst (extract_ratings (snd file))) l"
    using series_extract_foreign [of l "snd file"]
    by (simp add: series_extend_ratings [OF distinct_labels] del: set_map)
  then show ?thesis
    by (simp add: process_file_def Let_def case_prod_beta)
qed

lemma process_file_effectiveness:
  "all_effectiveness (process_file st file) =
     all_effectiveness st @ snd (extract_ratings (snd file))"
  by (simp add: process_file_def Let_def case_prod_beta)

lemma process_file_beneficial:
  "all_beneficial (process_file st file) =
     all_beneficial st @ fst (extract_comments (snd file))"
  by (simp add: process_file_def Let_def case_prod_beta)

lemma process_file_improvement:
  "all_improvement (process_file st file) =
     all_improvement st @ snd (extract_comments (snd file))"
  by (simp add: process_file_def Let_def case_prod_beta)

lemma foldl_ratings:
  "series (all_ratings (foldl process_file st files)) l =
     series (all_ratings st) l
       @ concat (map (\<lambda>file. series (fst (extract_ratings (snd file))) l) files)"
  by (induction files arbitrary: st) (simp_all add: process_file_ratings)

lemma foldl_effectiveness:
  "all_effectiveness (foldl process_file st files) =
     all_effectiveness st @ concat (map (\<lambda>file. snd (extract_ratings (snd file))) files)"
  by (induction files arbitrary: st) (simp_all add: process_file_effectiveness)

lemma foldl_beneficial:
  "all_beneficial (foldl process_file st files) =
     all_beneficial st @ concat (map (\<lambda>file. fst (extract_comments (snd file))) files)"
  by (induction files arbitrary: st) (simp_all add: process_file_beneficial)

lemma foldl_improvement:
  "all_improvement (foldl process_file st files) =
     all_improvement st @ concat (map (\<lambda>file. snd (extract_comments (snd file))) files)"
  by (induction files arbitrary: st) (simp_all add: process_file_improvement)

lemma process_file_summaries:
  "map (\<lambda>c. (cs_ratings c, cs_effectiveness c, cs_beneficial c, cs_improvement c))
       (course_summaries (process_file st file)) =
     map (\<lambda>c. (cs_ratings c, cs_effectiveness c, cs_beneficial c, cs_improvement c))
       (course_summaries st)
     @ [(fst (extract_ratings (snd file)), snd (extract_ratings (snd file)),
         fst (extract_comments (snd file)), snd (extract_comments (snd file)))]"
  by (simp add: process_file_def Let_def case_prod_beta)

lemma foldl_summaries:
  "map (\<lambda>c. (cs_ratings c, cs_effectiveness c, cs_beneficial c, cs_improvement c))
       (course_summaries (foldl process_file st files)) =
     map (\<lambda>c. (cs_ratings c, cs_effectiveness c, cs_beneficial c, cs_improvement c))
       (course_summaries st)
     @ map (\<lambda>file. (fst (extract_ratings (snd file)), snd (extract_ratings (snd file)),
         fst (extract_comments (snd file)), snd (extract_comments (snd file)))) files"
  by (induction files arbitrary: st) (simp_all add: process_file_summaries)

lemma sum_list_sort_key:
  "sum_list (map f (sort_key k xs)) = sum_list (map f (xs :: 'a list) :: nat list)"
proof -
  have "mset (map f (sort_key k xs)) = mset (map f xs)" by simp
  then show ?thesis by (metis sum_mset_sum_list)
qed

subsection \<open>The ranking\<close>

lemma calculate_stats_nonempty:
  assumes "xs \<noteq> []"
  shows "calculate_stats xs =
     Inr (Some (arithmetic_mean xs), Some (if 1 < length xs then sample_sd xs else 0))"
proof (cases "1 < length xs")
  case True
  then have "2 \<le> length xs" by simp
  with True show ?thesis by (simp add: calculate_stats_many)
next
  case False
  with assms obtain x where "xs = [x]" by (cases xs) auto
  then show ?thesis by (simp add: calculate_stats_one arithmetic_mean_def)
qed

lemma rank_loop_eq:
  "rank_loop labels totals acc =
     Inr (acc @ map (ranked_entry totals) (filter (\<lambda>label. series totals label \<noteq> []) labels))"
proof (induction labels arbitrary: acc)
  case Nil
  then show ?case by simp
next
  case (Cons label labels)
  show ?case
  proof (cases "series totals label = []")
    case True
    then show ?thesis by (simp add: Cons.IH)
  next
    case False
    then have "label \<in> dom totals" using series_absent by blast
    with False show ?thesis
      by (simp add: Cons.IH calculate_stats_nonempty ranked_entry_def)
  qed
qed

lemma sort_rev: "sort (rev xs) = sort xs"
  by (rule properties_for_sort) simp_all

lemma aggregate_ranking_eq:
  "aggregate_ranking totals =
     Inr (rev (sort (map (ranked_entry totals) (labels_with_data totals))))"
  by (simp add: aggregate_ranking_def rank_loop_eq py_sort_reverse_def sort_rev
      labels_with_data_def)

lemma rs_label_ranked_entry: "rs_label (ranked_entry totals l) = l"
  by (simp add: rs_label_def ranked_entry_def)

lemma distinct_labels_with_data: "distinct (labels_with_data totals)"
  unfolding labels_with_data_def using distinct_labels by (rule distinct_filter)

lemma ranking_labels:
  "map rs_label (map (ranked_entry totals) ls) = ls"
  by (induction ls) (simp_all add: rs_label_ranked_entry)

lemma mset_ranking_labels:
  "mset (map rs_label (rev (sort (map (ranked_entry totals) ls)))) = mset ls"
proof -
  have "mset (map rs_label (rev (sort (map (ranked_entry totals) ls))))
      = mset (map rs_label (map (ranked_entry totals) ls))"
    by (simp del: map_map)
  then show ?thesis by (simp only: ranking_labels)
qed

lemma descending_pairs:
  "sorted_wrt (\<lambda>a b. b \<le> a) (rev (sort xs))"
  by (simp add: sorted_wrt_rev)

lemma sorted_wrt_distinct_map:
  "sorted_wrt P xs \<Longrightarrow> distinct (map f xs) \<Longrightarrow>
     sorted_wrt (\<lambda>a b. P a b \<and> f a \<noteq> f b) xs"
  by (induction xs) auto

lemma tuple_order_ranked_before:
  fixes a b :: ranked_stat
  assumes "b \<le> a" "rs_label a \<noteq> rs_label b"
  shows "ranked_before a b"
proof -
  obtain m1 s1 l1 n1 where a: "a = (m1, s1, l1, n1)" by (cases a) auto
  obtain m2 s2 l2 n2 where b: "b = (m2, s2, l2, n2)" by (cases b) auto
  from assms show ?thesis
    unfolding a b ranked_before_def rs_mean_def rs_std_def rs_label_def
    by (auto simp: less_eq_prod_def)
qed

lemma ranked_before_mean: "ranked_before a b \<Longrightarrow> rs_mean b \<le> rs_mean a"
  by (auto simp: ranked_before_def)

lemma ranking_sorted:
  "sorted_wrt ranked_before (rev (sort (map (ranked_entry totals) (labels_with_data totals))))"
  (is "sorted_wrt _ ?sr")
proof -
  have "distinct (map rs_label ?sr)"
    using mset_ranking_labels [of totals "labels_with_data totals"] distinct_labels_with_data
    by (metis mset_eq_imp_distinct_iff)
  with descending_pairs
  have "sorted_wrt (\<lambda>a b. b \<le> a \<and> rs_label a \<noteq> rs_label b) ?sr"
    by (rule sorted_wrt_distinct_map)
  then show ?thesis
    by (rule sorted_wrt_mono_rel [rotated]) (simp add: tuple_order_ranked_before)
qed

lemma top_bottom_disjoint:
  assumes "distinct xs" "6 \<le> length xs"
  shows "set (top3 xs) \<inter> set (bottom3 xs) = {}"
proof -
  from assms(1) have "distinct (take 3 xs @ drop 3 xs)" by simp
  then have "set (take 3 xs) \<inter> set (drop 3 xs) = {}" by (simp only: distinct_append)
  moreover from assms(2) have "set (drop (length xs - 3) xs) \<subseteq> set (drop 3 xs)"
    by (intro set_drop_subset_set_drop) simp
  ultimately show ?thesis
    using assms(2) by (auto simp: top3_def bottom3_def)
qed

lemma top_bottom_overlap:
  assumes "0 < length xs" "length xs < 6"
  shows "set (top3 xs) \<inter> set (bottom3 xs) \<noteq> {}"
proof -
  define i where "i = (if length xs < 3 then 0 else length xs - 3)"
  from assms have i: "i < 3" "i < length xs" by (auto simp: i_def)
  then have "xs ! i \<in> set (take 3 xs)"
    by (metis in_set_conv_nth length_take min_less_iff_conj nth_take)
  moreover from i have "xs ! i \<in> set (drop i xs)"
    by (metis Cons_nth_drop_Suc list.set_intros(1))
  ultimately show ?thesis
    by (auto simp: top3_def bottom3_def i_def)
qed

section \<open>The claims\<close>

text \<open>
  Claim C1. \<open>filter_good_feedback\<close> keeps a comment exactly when its length is at least
  \<open>min_length\<close> and at least two distinct keywords of the vocabulary occur in it as
  case-insensitive substrings, each keyword counted once; with the default threshold 50 a
  comment of 49 characters is never kept; the comments kept stand in their input order.
\<close>

theorem filter_good_feedback_contract:
  "filter_good_feedback comments min_length
     = filter (\<lambda>c. min_length \<le> int (length c) \<and> 2 \<le> distinct_hits c) comments
   \<and> (length c = 49 \<longrightarrow> c \<notin> set (filter_good_feedback_default comments))
   \<and> subseq (filter_good_feedback comments min_length) comments"
  by (simp add: filter_good_feedback_def filter_good_feedback_default_def filter_loop_eq)

theorem filter_good_feedback_contract_witness:
  "length ''great excellent helpful clear kind fair best well'' = 49
   \<and> ''great excellent helpful clear kind fair best well'' \<notin> set (filter_good_feedback_default
         [''great excellent helpful clear kind fair best well'',
          ''Professor was GREAT and always Helpful in office hours'',
          ''Professor was GREAT and always present in office hours''])
   \<and> filter_good_feedback_default
         [''great excellent helpful clear kind fair best well'',
          ''Professor was GREAT and always Helpful in office hours'',
          ''Professor was GREAT and always present in office hours'']
       = [''Professor was GREAT and always Helpful in office hours'']"
proof -
  have len: "length ''great excellent helpful clear kind fair best well'' = 49"
    by simp
  have run: "filter_good_feedback_default
         [''great excellent helpful clear kind fair best well'',
          ''Professor was GREAT and always Helpful in office hours'',
          ''Professor was GREAT and always present in office hours'']
       = [''Professor was GREAT and always Helpful in office hours'']"
    by code_simp
  from filter_good_feedback_contract
         [of "[''great excellent helpful clear kind fair best well'',
          ''Professor was GREAT and always Helpful in office hours'',
          ''Professor was GREAT and always present in office hours'']" 50
          "''great excellent helpful clear kind fair best well''"] len run
  show ?thesis by blast
qed

text \<open>
  Claim C8. For a file name that contains the pattern (a semester name, whitespace, a
  four-digit year, any text on one line, the CMSI course code, whitespace, section
  digits), \<open>parse_course_info\<close> returns the semester and the year joined by one blank,
  the course code and the section of an occurrence of the pattern, the one its
  leftmost-first search finds; for a file name without the pattern it returns the triple
  \<open>("Unknown", "Unknown", "00")\<close>; it returns a triple on every input. For a file name of
  the plain shape, such as one with \<open>Fall 2025\<close>, other text and \<open>CMSI 186 02\<close>, the
  triple is made of exactly these parts: \<open>("Fall 2025", "CMSI 186", "02")\<close>. The
  search starts at the semester name: no instructor name is needed before it, whatever
  the comment above the pattern suggests, and the section is part of the result.
\<close>

theorem parse_course_info_contract:
  "(contains_course_pattern s \<longrightarrow>
      (\<exists>sem year course sec. has_course_pattern s sem year course sec
         \<and> parse_course_info s = (sem @ '' '' @ year, course, sec)))
   \<and> (\<not> contains_course_pattern s \<longrightarrow>
        parse_course_info s = (''Unknown'', ''Unknown'', ''00''))
   \<and> (plain_file_name pre sem' year' mid num sec' rest \<longrightarrow>
        parse_course_info
          (pre @ sem' @ '' '' @ year' @ mid @ ''CMSI'' @ '' '' @ num @ '' '' @ sec' @ rest)
        = (sem' @ '' '' @ year', ''CMSI'' @ '' '' @ num, sec'))"
proof (intro conjI impI)
  assume "contains_course_pattern s"
  then show "\<exists>sem year course sec. has_course_pattern s sem year course sec
         \<and> parse_course_info s = (sem @ '' '' @ year, course, sec)"
    by (rule parse_course_info_found)
next
  assume "\<not> contains_course_pattern s"
  then show "parse_course_info s = (''Unknown'', ''Unknown'', ''00'')"
    by (rule parse_course_info_absent)
next
  assume "plain_file_name pre sem' year' mid num sec' rest"
  then show "parse_course_info
          (pre @ sem' @ '' '' @ year' @ mid @ ''CMSI'' @ '' '' @ num @ '' '' @ sec' @ rest)
        = (sem' @ '' '' @ year', ''CMSI'' @ '' '' @ num, sec')"
    by (rule parse_course_info_plain)
qed

theorem parse_course_info_contract_witness:
  "plain_file_name ''Coleman Jared '' ''Fall'' ''2025'' '' Course Evaluations ''
     ''186'' ''02'' ''.csv''
   \<and> parse_course_info ''Coleman Jared Fall 2025 Course Evaluations CMSI 186 02.csv''
       = (''Fall 2025'', ''CMSI 186'', ''02'')
   \<and> contains_course_pattern ''Coleman Jared Fall 2025 Course Evaluations CMSI 186 02.csv''
   \<and> (\<exists>sem year course sec.
         has_course_pattern ''Coleman Jared Fall 2025 Course Evaluations CMSI 186 02.csv''
           sem year course sec
         \<and> parse_course_info ''Coleman Jared Fall 2025 Course Evaluations CMSI 186 02.csv''
             = (sem @ '' '' @ year, course, sec))
   \<and> \<not> contains_course_pattern ''grades 2025.csv''
   \<and> parse_course_info ''grades 2025.csv'' = (''Unknown'', ''Unknown'', ''00'')
   \<and> parse_course_info ''Smith John Fall 2025 Course Evaluations CMSI 186 02.csv''
       = (''Fall 2025'', ''CMSI 186'', ''02'')
   \<and> parse_course_info (''Fall'' @ CHR 0xA0 # ''2025 CMSI 186 02'')
       = (''Fall 2025'', ''CMSI 186'', ''02'')"
proof -
  have other: "parse_course_info ''Smith John Fall 2025 Course Evaluations CMSI 186 02.csv''
       = (''Fall 2025'', ''CMSI 186'', ''02'')"
    by code_simp
  have nbsp: "parse_course_info (''Fall'' @ CHR 0xA0 # ''2025 CMSI 186 02'')
       = (''Fall 2025'', ''CMSI 186'', ''02'')"
    by code_simp
  have plain: "plain_file_name ''Coleman Jared '' ''Fall'' ''2025'' '' Course Evaluations ''
     ''186'' ''02'' ''.csv''"
    by (simp add: plain_file_name_def is_digit_def is_dot_def)
  with parse_course_info_contract
    [of _ "''Coleman Jared ''" "''Fall''" "''2025''" "'' Course Evaluations ''"
       "''186''" "''02''" "''.csv''"]
  have example: "parse_course_info ''Coleman Jared Fall 2025 Course Evaluations CMSI 186 02.csv''
       = (''Fall 2025'', ''CMSI 186'', ''02'')"
    by simp
  have "has_course_pattern ''Coleman Jared Fall 2025 Course Evaluations CMSI 186 02.csv''
          ''Fall'' ''2025'' ''CMSI 186'' ''02''"
    unfolding has_course_pattern_def
    apply (rule exI [of _ "''Coleman Jared ''"])
    apply (rule exI [of _ "'' ''"])
    apply (rule exI [of _ "'' Course Evaluations ''"])
    apply (rule exI [of _ "'' ''"])
    apply (rule exI [of _ "''186''"])
    apply (rule exI [of _ "'' ''"])
    apply (rule exI [of _ "''.csv''"])
    apply (simp add: is_space_def is_digit_def is_dot_def)
    done
  then have yes:
    "contains_course_pattern ''Coleman Jared Fall 2025 Course Evaluations CMSI 186 02.csv''"
    unfolding contains_course_pattern_def by blast
  have run: "parse_course_info ''grades 2025.csv'' = (''Unknown'', ''Unknown'', ''00'')"
    by code_simp
  have no: "\<not> contains_course_pattern ''grades 2025.csv''"
  proof
    assume "contains_course_pattern ''grades 2025.csv''"
    with parse_course_info_contract [of "''grades 2025.csv''"] run
    obtain sem year where "sem \<in> set [''Spring'', ''Fall'', ''Summer'']"
      "sem @ '' '' @ year = ''Unknown''"
      unfolding has_course_pattern_def by auto
    then show False by auto
  qed
  from plain example yes no run other nbsp
    parse_course_info_contract [of "''Coleman Jared Fall 2025 Course Evaluations CMSI 186 02.csv''"]
  show ?thesis by blast
qed

text \<open>
  Claim C2, as the code has it. \<open>extract_comments\<close> collects the trimmed value of a cell
  into the benefit sequence exactly when the column name contains \<open>most beneficial\<close>
  case-insensitively and the value as read (before trimming) is non-empty and different
  from \<open>D/A\<close>; it collects the trimmed value into the improvement sequence exactly when
  the column name contains \<open>more effective\<close> and not \<open>most beneficial\<close> and the value as
  read is non-empty and different from \<open>D/A\<close>. Both sequences keep the order of the
  cells.
\<close>

theorem extract_comments_contract:
  "extract_comments responses =
     (map (\<lambda>cell. py_strip (snd cell)) (filter benefit_cell (concat responses)),
      map (\<lambda>cell. py_strip (snd cell)) (filter improvement_cell (concat responses)))"
  by (simp add: extract_comments_def comment_resp_loop_eq)

text \<open>
  The claim as the specification words it tests the trimmed value. It fails on a value of
  blanks only (or of no-break spaces only), which does not pass the specification's test
  and is collected as the empty string, and on a value that trims to \<open>D/A\<close>, which is collected as \<open>D/A\<close>. The rule
  for \<open>more effective\<close> is not the mirror image of the one for \<open>most beneficial\<close>
  either: a cell whose column names both passes the specification's test for the
  improvement sequence and goes to the benefit sequence only.
\<close>

theorem extract_comments_counterexample:
  "\<not> spec_benefit_cell (''What was most beneficial?'', ''   '')
   \<and> extract_comments [[(''What was most beneficial?'', ''   '')]] = ([[]], [])
   \<and> \<not> spec_benefit_cell (''What was most beneficial?'', '' D/A '')
   \<and> extract_comments [[(''What was most beneficial?'', '' D/A '')]] = ([''D/A''], [])
   \<and> spec_improvement_cell (''Most beneficial, or more effective?'', ''labs'')
   \<and> extract_comments [[(''Most beneficial, or more effective?'', ''labs'')]]
       = ([''labs''], [])
   \<and> \<not> spec_benefit_cell (''What was most beneficial?'', [CHR 0xA0, CHR 0x85])
   \<and> extract_comments [[(''What was most beneficial?'', [CHR 0xA0, CHR 0x85])]]
       = ([[]], [])"
proof -
  have blank: "py_strip ''   '' = []" and token: "py_strip '' D/A '' = ''D/A''"
    and labs: "py_strip ''labs'' = ''labs''"
    and nbsp: "py_strip [CHR 0xA0, CHR 0x85] = []"
    by (simp_all add: py_strip_def is_space_def)
  have "py_in ''more effective'' (py_lower ''Most beneficial, or more effective?'')"
    by code_simp
  then have both: "occurs_ci ''more effective'' ''Most beneficial, or more effective?''"
    by (simp only: py_in_lower_literal [OF lower_more_effective])
  have run: "extract_comments [[(''What was most beneficial?'', ''   '')]] = ([[]], [])"
    "extract_comments [[(''What was most beneficial?'', '' D/A '')]] = ([''D/A''], [])"
    "extract_comments [[(''Most beneficial, or more effective?'', ''labs'')]]
       = ([''labs''], [])"
    "extract_comments [[(''What was most beneficial?'', [CHR 0xA0, CHR 0x85])]]
       = ([[]], [])"
    by code_simp+
  from blank token labs nbsp both run show ?thesis
    by (simp add: spec_benefit_cell_def spec_improvement_cell_def spec_answered_def)
qed

text \<open>
  Claim C3. For a question text bound to a label, the series \<open>extract_ratings\<close> returns
  under that label holds, in cell order, the Likert score of every cell whose column name
  contains the question text and not \<open>_Comments\<close> and whose value is a key of the Likert
  mapping, and nothing else; the effectiveness series holds the effectiveness score of
  every cell whose column name contains \<open>overall effectiveness\<close> case-insensitively and
  not \<open>_Comments\<close> and whose value is a key of the effectiveness mapping, and nothing
  else.
\<close>

theorem extract_ratings_contract:
  "((q_text, label) \<in> set QUESTION_LABELS \<longrightarrow>
      series (fst (extract_ratings responses)) label
        = map (\<lambda>cell. the (LIKERT_MAP (snd cell)))
            (filter (likert_cell q_text) (concat responses)))
   \<and> snd (extract_ratings responses)
        = map (\<lambda>cell. the (EFFECTIVENESS_MAP (snd cell)))
            (filter effectiveness_cell (concat responses))"
proof (intro conjI impI)
  assume "(q_text, label) \<in> set QUESTION_LABELS"
  then have "label_hits label = (\<lambda>cell. if likert_cell q_text cell
      then [the (LIKERT_MAP (snd cell))] else [])"
    by (auto simp: label_hits_question)
  then show "series (fst (extract_ratings responses)) label
        = map (\<lambda>cell. the (LIKERT_MAP (snd cell)))
            (filter (likert_cell q_text) (concat responses))"
    by (simp add: extract_ratings_def rating_resp_loop_fst series_empty concat_map_if)
next
  show "snd (extract_ratings responses)
        = map (\<lambda>cell. the (EFFECTIVENESS_MAP (snd cell)))
            (filter effectiveness_cell (concat responses))"
    by (simp add: extract_ratings_def rating_resp_loop_snd)
qed

theorem extract_ratings_contract_witness:
  "(''The course challenged me to do my best work'', ''Challenged'') \<in> set QUESTION_LABELS
   \<and> series (fst (extract_ratings
         [[(''Q6 The course challenged me to do my best work'', ''Agree''),
           (''Q6 The course challenged me to do my best work_Comments'', ''Agree'')],
          [(''Q6 The course challenged me to do my best work'', ''N/A'')],
          [(''Q6 The course challenged me to do my best work'', ''Strongly Disagree'')]]))
       ''Challenged'' = [4, 1]"
proof -
  have mem: "(''The course challenged me to do my best work'', ''Challenged'')
      \<in> set QUESTION_LABELS"
    by (simp add: QUESTION_LABELS_def)
  have rhs: "map (\<lambda>cell. the (LIKERT_MAP (snd cell)))
      (filter (likert_cell ''The course challenged me to do my best work'')
        (concat
         [[(''Q6 The course challenged me to do my best work'', ''Agree''),
           (''Q6 The course challenged me to do my best work_Comments'', ''Agree'')],
          [(''Q6 The course challenged me to do my best work'', ''N/A'')],
          [(''Q6 The course challenged me to do my best work'', ''Strongly Disagree'')]]))
      = [4, 1]"
    by (simp add: likert_cell_def LIKERT_MAP_def dom_def)
  from mem rhs extract_ratings_contract
      [of "''The course challenged me to do my best work''" "''Challenged''"
         "[[(''Q6 The course challenged me to do my best work'', ''Agree''),
           (''Q6 The course challenged me to do my best work_Comments'', ''Agree'')],
          [(''Q6 The course challenged me to do my best work'', ''N/A'')],
          [(''Q6 The course challenged me to do my best work'', ''Strongly Disagree'')]]"]
  show ?thesis by simp
qed

text \<open>
  Claim C7. Every integer in a question series is the Likert score of the value of some
  cell of the input, and every integer in the effectiveness series is the effectiveness
  score of the value of some cell; so both lie between 1 and 5, and neither series holds
  a score taken from the other mapping's table. A row whose answers are keys of neither
  mapping adds nothing to any series, and the respondent count of the file still grows by
  one.
\<close>

theorem score_series_origin:
  "(\<forall>v \<in> set (series (fst (extract_ratings responses)) label).
      (\<exists>cell \<in> set (concat responses). LIKERT_MAP (snd cell) = Some v) \<and> 1 \<le> v \<and> v \<le> 5)
   \<and> (\<forall>v \<in> set (snd (extract_ratings responses)).
      (\<exists>cell \<in> set (concat responses). EFFECTIVENESS_MAP (snd cell) = Some v) \<and> 1 \<le> v \<and> v \<le> 5)
   \<and> ((\<forall>cell \<in> set resp. snd cell \<notin> dom LIKERT_MAP \<and> snd cell \<notin> dom EFFECTIVENESS_MAP) \<longrightarrow>
        extract_ratings (responses @ [resp]) = extract_ratings responses
        \<and> n_responses_of (name, responses @ [resp]) = n_responses_of (name, responses) + 1)"
proof (intro conjI ballI impI)
  fix v assume v: "v \<in> set (series (fst (extract_ratings responses)) label)"
  then show origin: "\<exists>cell \<in> set (concat responses). LIKERT_MAP (snd cell) = Some v"
    by (rule question_series_origin)
  then show "1 \<le> v" "v \<le> 5" using likert_range by blast+
next
  fix v assume v: "v \<in> set (snd (extract_ratings responses))"
  then show origin: "\<exists>cell \<in> set (concat responses). EFFECTIVENESS_MAP (snd cell) = Some v"
    by (rule effectiveness_series_origin)
  then show "1 \<le> v" "v \<le> 5" using effectiveness_range by blast+
next
  assume "\<forall>cell \<in> set resp. snd cell \<notin> dom LIKERT_MAP \<and> snd cell \<notin> dom EFFECTIVENESS_MAP"
  then show "extract_ratings (responses @ [resp]) = extract_ratings responses"
    by (rule extract_ratings_unmapped)
next
  show "n_responses_of (name, responses @ [resp]) = n_responses_of (name, responses) + 1"
    by (simp add: n_responses_of_eq)
qed

theorem score_series_origin_witness:
  "4 \<in> set (series (fst (extract_ratings
        [[(''Q6 The course challenged me to do my best work'', ''Agree''),
          (''Overall effectiveness of the instructor'', ''Excellent'')]])) ''Challenged'')
   \<and> (\<exists>cell \<in> set (concat
        [[(''Q6 The course challenged me to do my best work'', ''Agree''),
          (''Overall effectiveness of the instructor'', ''Excellent'')]]).
        LIKERT_MAP (snd cell) = Some 4)
   \<and> 5 \<in> set (snd (extract_ratings
        [[(''Q6 The course challenged me to do my best work'', ''Agree''),
          (''Overall effectiveness of the instructor'', ''Excellent'')]]))
   \<and> (\<exists>cell \<in> set (concat
        [[(''Q6 The course challenged me to do my best work'', ''Agree''),
          (''Overall effectiveness of the instructor'', ''Excellent'')]]).
        EFFECTIVENESS_MAP (snd cell) = Some 5)
   \<and> ''N/A'' \<notin> dom LIKERT_MAP \<and> ''N/A'' \<notin> dom EFFECTIVENESS_MAP
   \<and> [] \<notin> dom LIKERT_MAP \<and> [] \<notin> dom EFFECTIVENESS_MAP
   \<and> extract_ratings
        ([[(''Q6 The course challenged me to do my best work'', ''Agree''),
           (''Overall effectiveness of the instructor'', ''Excellent'')]]
         @ [[(''Q6 The course challenged me to do my best work'', ''N/A''),
             (''Overall effectiveness of the instructor'', [])]])
       = extract_ratings
        [[(''Q6 The course challenged me to do my best work'', ''Agree''),
          (''Overall effectiveness of the instructor'', ''Excellent'')]]
   \<and> n_responses_of (''Fall 2025 CMSI 186 02.csv'',
        [[(''Q6 The course challenged me to do my best work'', ''Agree''),
          (''Overall effectiveness of the instructor'', ''Excellent'')]]
         @ [[(''Q6 The course challenged me to do my best work'', ''N/A''),
             (''Overall effectiveness of the instructor'', [])]])
       = n_responses_of (''Fall 2025 CMSI 186 02.csv'',
        [[(''Q6 The course challenged me to do my best work'', ''Agree''),
          (''Overall effectiveness of the instructor'', ''Excellent'')]]) + 1"
proof -
  have q: "4 \<in> set (series (fst (extract_ratings
        [[(''Q6 The course challenged me to do my best work'', ''Agree''),
          (''Overall effectiveness of the instructor'', ''Excellent'')]])) ''Challenged'')"
    by code_simp
  have e: "5 \<in> set (snd (extract_ratings
        [[(''Q6 The course challenged me to do my best work'', ''Agree''),
          (''Overall effectiveness of the instructor'', ''Excellent'')]]))"
    by code_simp
  have u: "\<forall>cell \<in> set [(''Q6 The course challenged me to do my best work'', ''N/A''),
                      (''Overall effectiveness of the instructor'', [])].
        snd cell \<notin> dom LIKERT_MAP \<and> snd cell \<notin> dom EFFECTIVENESS_MAP"
    by (simp add: LIKERT_MAP_def EFFECTIVENESS_MAP_def dom_def)
  have u': "''N/A'' \<notin> dom LIKERT_MAP \<and> ''N/A'' \<notin> dom EFFECTIVENESS_MAP
      \<and> [] \<notin> dom LIKERT_MAP \<and> [] \<notin> dom EFFECTIVENESS_MAP"
    using u by simp
  from q e u u' score_series_origin
      [of "[[(''Q6 The course challenged me to do my best work'', ''Agree''),
          (''Overall effectiveness of the instructor'', ''Excellent'')]]" "''Challenged''"
          "[(''Q6 The course challenged me to do my best work'', ''N/A''),
                      (''Overall effectiveness of the instructor'', [])]"
          "''Fall 2025 CMSI 186 02.csv''"]
  show ?thesis by blast
qed

text \<open>
  Claim C4. \<open>calculate_stats\<close> returns the pair \<open>(None, None)\<close> on the empty sequence,
  the standard deviation 0 on a sequence of one element, and on two or more elements the
  arithmetic mean with the unbiased sample standard deviation (denominator \<open>n - 1\<close>); it
  raises no error on any input. On a constant sequence the mean is the constant and the
  standard deviation is 0.
\<close>

theorem calculate_stats_contract:
  "calculate_stats [] = Inr (None, None)
   \<and> calculate_stats [x] = Inr (Some (real_of_int x), Some 0)
   \<and> (2 \<le> length xs \<longrightarrow>
        calculate_stats xs = Inr (Some (arithmetic_mean xs), Some (sample_sd xs)))
   \<and> (0 < n \<longrightarrow> calculate_stats (replicate n k) = Inr (Some (real_of_int k), Some 0))"
  by (simp add: calculate_stats_one calculate_stats_many calculate_stats_constant)
    (simp add: calculate_stats_def)

theorem calculate_stats_contract_witness:
  "2 \<le> length [5, 3, 5 :: int]
   \<and> calculate_stats [5, 3, 5] = Inr (Some (13 / 3), Some (sqrt (4 / 3)))
   \<and> 0 < (3 :: nat)
   \<and> calculate_stats (replicate 3 4) = Inr (Some 4, Some 0)"
proof -
  have m: "arithmetic_mean [5, 3, 5] = 13 / 3"
    by (simp add: arithmetic_mean_def)
  have sd: "sample_sd [5, 3, 5] = sqrt (4 / 3)"
    by (simp add: sample_sd_def m power2_eq_square)
  from calculate_stats_contract [of _ "[5, 3, 5]" 3 4] m sd
  show ?thesis by simp
qed

text \<open>
  Claim C9. \<open>calculate_stats\<close> returns the same pair on a sequence and on every
  permutation of it; so the statistics of the concatenated per-file series do not depend
  on the order in which the files were processed, though the concatenation does.
\<close>

theorem calculate_stats_order_invariant:
  "(mset xs = mset ys \<longrightarrow> calculate_stats xs = calculate_stats ys)
   \<and> (mset per_file = mset per_file' \<longrightarrow>
        calculate_stats (concat per_file) = calculate_stats (concat per_file'))"
  using calculate_stats_mset mset_concat_cong by blast

theorem calculate_stats_order_invariant_witness:
  "mset [5, 3, 5 :: int] = mset [3, 5, 5]
   \<and> calculate_stats [5, 3, 5] = calculate_stats [3, 5, 5]
   \<and> mset [[5, 3], [4 :: int]] = mset [[4], [5, 3]]
   \<and> concat [[5, 3], [4 :: int]] \<noteq> concat [[4], [5, 3]]
   \<and> calculate_stats (concat [[5, 3], [4]]) = calculate_stats (concat [[4], [5, 3]])"
proof -
  have a: "mset [5, 3, 5 :: int] = mset [3, 5, 5]" by simp
  have b: "mset [[5, 3], [4 :: int]] = mset [[4], [5, 3]]" by simp
  have c: "concat [[5, 3], [4 :: int]] \<noteq> concat [[4], [5, 3]]" by simp
  from a b c calculate_stats_order_invariant [of "[5, 3, 5]" "[3, 5, 5]" "[[5, 3], [4]]" "[[4], [5, 3]]"]
  show ?thesis by blast
qed

text \<open>
  Claim C6. For every label the series in the totals is the concatenation of the series
  the files have for that label, the files taken in the sorted order of their names
  (under the key of the platform); its length is the sum of the lengths of the per-file
  series. The same holds for the effectiveness series and for both comment sequences.
  The per-file series and sequences are the ones kept in the course summaries, which
  stand in the same order.
\<close>

theorem aggregation_is_concatenation:
  "series (all_ratings (process_files path_key files)) label
     = concat (map (\<lambda>file. series (fst (extract_ratings (snd file))) label)
         (sort_key (\<lambda>file. path_key (fst file)) files))
   \<and> length (series (all_ratings (process_files path_key files)) label)
     = sum_list (map (\<lambda>file. length (series (fst (extract_ratings (snd file))) label)) files)
   \<and> all_effectiveness (process_files path_key files)
     = concat (map (\<lambda>file. snd (extract_ratings (snd file)))
         (sort_key (\<lambda>file. path_key (fst file)) files))
   \<and> all_beneficial (process_files path_key files)
     = concat (map (\<lambda>file. fst (extract_comments (snd file)))
         (sort_key (\<lambda>file. path_key (fst file)) files))
   \<and> all_improvement (process_files path_key files)
     = concat (map (\<lambda>file. snd (extract_comments (snd file)))
         (sort_key (\<lambda>file. path_key (fst file)) files))
   \<and> map (\<lambda>c. (cs_ratings c, cs_effectiveness c, cs_beneficial c, cs_improvement c))
       (course_summaries (process_files path_key files))
     = map (\<lambda>file. (fst (extract_ratings (snd file)), snd (extract_ratings (snd file)),
         fst (extract_comments (snd file)), snd (extract_comments (snd file))))
         (sort_key (\<lambda>file. path_key (fst file)) files)"
proof -
  have r: "series (all_ratings (process_files path_key files)) label
     = concat (map (\<lambda>file. series (fst (extract_ratings (snd file))) label)
         (sort_key (\<lambda>file. path_key (fst file)) files))"
    by (simp add: process_files_def foldl_ratings initial_state_def series_empty)
  have "length (series (all_ratings (process_files path_key files)) label)
     = sum_list (map (\<lambda>file. length (series (fst (extract_ratings (snd file))) label))
         (sort_key (\<lambda>file. path_key (fst file)) files))"
    unfolding r by (simp add: length_concat comp_def)
  then have l: "length (series (all_ratings (process_files path_key files)) label)
     = sum_list (map (\<lambda>file. length (series (fst (extract_ratings (snd file))) label)) files)"
    by (simp only: sum_list_sort_key)
  show ?thesis
    using r l
    by (simp add: process_files_def foldl_effectiveness foldl_beneficial foldl_improvement
        foldl_summaries initial_state_def)
qed

text \<open>
  Claim C5. The ranking is built without error and lists the entries of the labels with
  data, each once, in descending order of mean. When at least six labels have data and the means are
  pairwise distinct, the first three and the last three entries have nothing in common;
  when between one and five labels have data, the two slices share an entry.
\<close>

theorem ranking_top_bottom:
  "\<exists>sr. aggregate_ranking totals = Inr sr
     \<and> sorted_wrt (\<lambda>a b. rs_mean b \<le> rs_mean a) sr
     \<and> mset sr = mset (map (ranked_entry totals) (labels_with_data totals))
     \<and> (6 \<le> length (labels_with_data totals) \<and> distinct (map rs_mean sr) \<longrightarrow>
          set (top3 sr) \<inter> set (bottom3 sr) = {})
     \<and> (0 < length (labels_with_data totals) \<and> length (labels_with_data totals) < 6 \<longrightarrow>
          set (top3 sr) \<inter> set (bottom3 sr) \<noteq> {})"
proof -
  define sr where "sr = rev (sort (map (ranked_entry totals) (labels_with_data totals)))"
  have run: "aggregate_ranking totals = Inr sr"
    by (simp add: aggregate_ranking_eq sr_def)
  have "sorted_wrt ranked_before sr"
    unfolding sr_def by (rule ranking_sorted)
  then have desc: "sorted_wrt (\<lambda>a b. rs_mean b \<le> rs_mean a) sr"
    by (rule sorted_wrt_mono_rel [rotated]) (simp add: ranked_before_mean)
  have labels: "mset (map rs_label sr) = mset (labels_with_data totals)"
    unfolding sr_def by (rule mset_ranking_labels)
  then have len: "length sr = length (labels_with_data totals)"
    by (metis length_map mset_eq_length)
  from labels distinct_labels_with_data have "distinct (map rs_label sr)"
    by (metis mset_eq_imp_distinct_iff)
  then have dist: "distinct sr" by (simp add: distinct_map)
  have top: "set (top3 sr) \<inter> set (bottom3 sr) = {}" if "6 \<le> length (labels_with_data totals)"
    using dist that len by (simp add: top_bottom_disjoint)
  have low: "set (top3 sr) \<inter> set (bottom3 sr) \<noteq> {}"
    if "0 < length (labels_with_data totals)" "length (labels_with_data totals) < 6"
    using that len by (simp add: top_bottom_overlap)
  have entries: "mset sr = mset (map (ranked_entry totals) (labels_with_data totals))"
    by (simp add: sr_def)
  from run desc entries top low show ?thesis by blast
qed

theorem ranking_top_bottom_witness:
  "aggregate_ranking (map_of
       [(''Outcomes Stated'', [5]), (''Outcomes Addressed'', [4]), (''Interactions'', [3]),
        (''Accessible'', [2]), (''Feedback'', [1]), (''Challenged'', [4, 5])])
     = Inr [(5, 0, ''Outcomes Stated'', 1), (9 / 2, sqrt (1 / 2), ''Challenged'', 2),
            (4, 0, ''Outcomes Addressed'', 1), (3, 0, ''Interactions'', 1),
            (2, 0, ''Accessible'', 1), (1, 0, ''Feedback'', 1)]
   \<and> 6 \<le> length (labels_with_data (map_of
       [(''Outcomes Stated'', [5]), (''Outcomes Addressed'', [4]), (''Interactions'', [3]),
        (''Accessible'', [2]), (''Feedback'', [1]), (''Challenged'', [4, 5])]))
   \<and> distinct (map rs_mean
           [(5, 0, ''Outcomes Stated'', 1), (9 / 2, sqrt (1 / 2), ''Challenged'', 2),
            (4, 0, ''Outcomes Addressed'', 1), (3, 0, ''Interactions'', 1),
            (2, 0, ''Accessible'', 1), (1, 0, ''Feedback'', 1)])
   \<and> set (top3 [(5, 0, ''Outcomes Stated'', 1), (9 / 2, sqrt (1 / 2), ''Challenged'', 2),
            (4, 0, ''Outcomes Addressed'', 1), (3, 0, ''Interactions'', 1),
            (2, 0, ''Accessible'', 1), (1 :: real, 0 :: real, ''Feedback'', 1 :: nat)])
       \<inter> set (bottom3 [(5, 0, ''Outcomes Stated'', 1), (9 / 2, sqrt (1 / 2), ''Challenged'', 2),
            (4, 0, ''Outcomes Addressed'', 1), (3, 0, ''Interactions'', 1),
            (2, 0, ''Accessible'', 1), (1, 0, ''Feedback'', 1)]) = {}
   \<and> aggregate_ranking (map_of [(''Accessible'', [4]), (''Feedback'', [5])])
     = Inr [(5, 0, ''Feedback'', 1), (4, 0, ''Accessible'', 1)]
   \<and> 0 < length (labels_with_data (map_of [(''Accessible'', [4]), (''Feedback'', [5])]))
   \<and> length (labels_with_data (map_of [(''Accessible'', [4]), (''Feedback'', [5])])) < 6
   \<and> set (top3 [(5 :: real, 0 :: real, ''Feedback'', 1 :: nat), (4, 0, ''Accessible'', 1)])
       \<inter> set (bottom3 [(5, 0, ''Feedback'', 1), (4, 0, ''Accessible'', 1)]) \<noteq> {}"
proof -
  let ?T6 = "map_of
       [(''Outcomes Stated'', [5]), (''Outcomes Addressed'', [4]), (''Interactions'', [3]),
        (''Accessible'', [2]), (''Feedback'', [1]), (''Challenged'', [4, 5 :: int])]"
  let ?S6 = "[(5, 0, ''Outcomes Stated'', 1), (9 / 2, sqrt (1 / 2), ''Challenged'', 2),
            (4, 0, ''Outcomes Addressed'', 1), (3, 0, ''Interactions'', 1),
            (2, 0, ''Accessible'', 1), (1, 0, ''Feedback'', 1)] :: ranked_stat list"
  let ?T2 = "map_of [(''Accessible'', [4]), (''Feedback'', [5 :: int])]"
  let ?S2 = "[(5, 0, ''Feedback'', 1), (4, 0, ''Accessible'', 1)] :: ranked_stat list"
  have run6: "aggregate_ranking ?T6 = Inr ?S6"
    by (simp add: aggregate_ranking_def QUESTION_LABELS_def series_def calculate_stats_def
        statistics_mean_def statistics_stdev_def py_sort_reverse_def dom_def)
  have len6: "6 \<le> length (labels_with_data ?T6)"
    by (simp add: labels_with_data_def QUESTION_LABELS_def series_def)
  have dist6: "distinct (map rs_mean ?S6)"
    by (simp add: rs_mean_def)
  have run2: "aggregate_ranking ?T2 = Inr ?S2"
    by (simp add: aggregate_ranking_def QUESTION_LABELS_def series_def calculate_stats_def
        statistics_mean_def statistics_stdev_def py_sort_reverse_def dom_def)
  have len2: "0 < length (labels_with_data ?T2)" "length (labels_with_data ?T2) < 6"
    by (simp_all add: labels_with_data_def QUESTION_LABELS_def series_def)
  from ranking_top_bottom [of ?T6] run6 len6 dist6
  have top6: "set (top3 ?S6) \<inter> set (bottom3 ?S6) = {}"
    by auto
  from ranking_top_bottom [of ?T2] run2 len2
  have low2: "set (top3 ?S2) \<inter> set (bottom3 ?S2) \<noteq> {}"
    by auto
  from run6 len6 dist6 top6 run2 len2 low2 show ?thesis by blast
qed

text \<open>
  Claim C10. In the ranking an entry stands before another when its mean is higher, or,
  the means being equal, its standard deviation is higher, or, both being equal, its
  label is the later one in the lexicographic order. This is not the declared order of
  the labels: with equal means and deviations \<open>Feedback\<close> comes before \<open>Accessible\<close>,
  which is declared first; with equal means the higher deviation wins against the label.
\<close>

theorem ranking_tie_break:
  "(\<exists>sr. aggregate_ranking totals = Inr sr
        \<and> mset sr = mset (map (ranked_entry totals) (labels_with_data totals))
        \<and> sorted_wrt ranked_before sr)
   \<and> labels_with_data (map_of [(''Accessible'', [4]), (''Feedback'', [4])])
       = [''Accessible'', ''Feedback'']
   \<and> aggregate_ranking (map_of [(''Accessible'', [4]), (''Feedback'', [4])])
       = Inr [(4, 0, ''Feedback'', 1), (4, 0, ''Accessible'', 1)]
   \<and> aggregate_ranking (map_of [(''Accessible'', [3, 5]), (''Feedback'', [4, 4])])
       = Inr [(4, sqrt 2, ''Accessible'', 2), (4, 0, ''Feedback'', 2)]"
proof (intro conjI)
  have "mset (rev (sort (map (ranked_entry totals) (labels_with_data totals))))
      = mset (map (ranked_entry totals) (labels_with_data totals))"
    by simp
  then show "\<exists>sr. aggregate_ranking totals = Inr sr
        \<and> mset sr = mset (map (ranked_entry totals) (labels_with_data totals))
        \<and> sorted_wrt ranked_before sr"
    using aggregate_ranking_eq ranking_sorted by blast
  show "labels_with_data (map_of [(''Accessible'', [4]), (''Feedback'', [4])])
       = [''Accessible'', ''Feedback'']"
    by (simp add: labels_with_data_def QUESTION_LABELS_def series_def)
  show "aggregate_ranking (map_of [(''Accessible'', [4]), (''Feedback'', [4])])
       = Inr [(4, 0, ''Feedback'', 1), (4, 0, ''Accessible'', 1)]"
    by (simp add: aggregate_ranking_def QUESTION_LABELS_def series_def calculate_stats_def
        statistics_mean_def statistics_stdev_def py_sort_reverse_def dom_def)
  show "aggregate_ranking (map_of [(''Accessible'', [3, 5]), (''Feedback'', [4, 4])])
       = Inr [(4, sqrt 2, ''Accessible'', 2), (4, 0, ''Feedback'', 2)]"
    by (simp add: aggregate_ranking_def QUESTION_LABELS_def series_def calculate_stats_def
        statistics_mean_def statistics_stdev_def py_sort_reverse_def dom_def)
qed

end
